theory Spec2Isabelle
  imports Main "HOL-Library.Sublist"
begin

section \<open>The ENR toplist crawler (src/controllers/crawler.js)\<close>

text \<open>
  A shallow embedding of the crawler's page logic. The browser is outside the model:
  each call of \<^verbatim>\<open>page.evaluate\<close>, \<^verbatim>\<open>page.waitForSelector\<close> and \<^verbatim>\<open>page.goto\<close> is an
  observation that either rejects (\<open>Inl\<close>, a thrown error) or resolves (\<open>Inr\<close>) with
  what the DOM query of the source returns. Console output and the fixed delays
  (\<^verbatim>\<open>setTimeout\<close>) change no value and are left out.

  An \<^verbatim>\<open>async\<close> function returns a \<open>result\<close>; a \<^verbatim>\<open>try\<close>/\<^verbatim>\<open>catch\<close> is the case distinction
  that turns \<open>Inl\<close> into the value the handler returns. JavaScript's \<^verbatim>\<open>null\<close> is \<open>None\<close>,
  the index \<open>-1\<close> stays the integer \<open>-1\<close>, and an object with string values is an
  association list in insertion order. Navigation is a step on a \<open>world\<close> that counts
  the navigations made and decides what each of them loads.

  Strings are \<open>string\<close>: a character is a code unit from U+0000 to U+00FF, so \<open>CHR 0xA0\<close>
  is the no-break space; text with code units above U+00FF is outside the model. Within
  this range white space is exactly what \<^verbatim>\<open>trim()\<close> and \<^verbatim>\<open>\s\<close> remove, and
  \<^verbatim>\<open>toLowerCase()\<close> and \<^verbatim>\<open>toUpperCase()\<close> are those of JavaScript, with one exception:
  the upper-case forms of U+00B5 and U+00FF lie above U+00FF, and the model leaves these
  two characters unchanged. The source compares upper-cased text only with ASCII
  patterns, so no test of the source tells these two characters from their upper-case
  forms.
\<close>

subsection \<open>JavaScript strings\<close>

definition isWhiteSpace :: "char \<Rightarrow> bool" where
  \<comment> \<open>what \<^verbatim>\<open>\s\<close> and \<^verbatim>\<open>trim()\<close> treat as white space, among U+0000 to U+00FF: tab, line
      feed, vertical tab, form feed, carriage return, space and the no-break space\<close>
  "isWhiteSpace c =
     (c = CHR 0x09 \<or> c = CHR 0x0A \<or> c = CHR 0x0B \<or> c = CHR 0x0C \<or> c = CHR 0x0D \<or>
      c = CHR '' '' \<or> c = CHR 0xA0)"

definition trim :: "string \<Rightarrow> string" where
  "trim s = rev (dropWhile isWhiteSpace (rev (dropWhile isWhiteSpace s)))"

definition lowerLetters :: string where
  \<comment> \<open>a to z, then U+00E0 to U+00FE without the division sign U+00F7\<close>
  "lowerLetters =
     ''abcdefghijklmnopqrstuvwxyz'' @
     [CHR 0xE0, CHR 0xE1, CHR 0xE2, CHR 0xE3, CHR 0xE4, CHR 0xE5, CHR 0xE6, CHR 0xE7,
      CHR 0xE8, CHR 0xE9, CHR 0xEA, CHR 0xEB, CHR 0xEC, CHR 0xED, CHR 0xEE, CHR 0xEF,
      CHR 0xF0, CHR 0xF1, CHR 0xF2, CHR 0xF3, CHR 0xF4, CHR 0xF5, CHR 0xF6,
      CHR 0xF8, CHR 0xF9, CHR 0xFA, CHR 0xFB, CHR 0xFC, CHR 0xFD, CHR 0xFE]"

definition upperLetters :: string where
  \<comment> \<open>A to Z, then U+00C0 to U+00DE without the multiplication sign U+00D7\<close>
  "upperLetters =
     ''ABCDEFGHIJKLMNOPQRSTUVWXYZ'' @
     [CHR 0xC0, CHR 0xC1, CHR 0xC2, CHR 0xC3, CHR 0xC4, CHR 0xC5, CHR 0xC6, CHR 0xC7,
      CHR 0xC8, CHR 0xC9, CHR 0xCA, CHR 0xCB, CHR 0xCC, CHR 0xCD, CHR 0xCE, CHR 0xCF,
      CHR 0xD0, CHR 0xD1, CHR 0xD2, CHR 0xD3, CHR 0xD4, CHR 0xD5, CHR 0xD6,
      CHR 0xD8, CHR 0xD9, CHR 0xDA, CHR 0xDB, CHR 0xDC, CHR 0xDD, CHR 0xDE]"

definition upperChar :: "char \<Rightarrow> string" where
  \<comment> \<open>the upper-case form of one character: the sharp s U+00DF becomes SS\<close>
  "upperChar c =
     (if c = CHR 0xDF then ''SS''
      else (case map_of (zip lowerLetters upperLetters) c of None \<Rightarrow> [c] | Some u \<Rightarrow> [u]))"

definition lowerChar :: "char \<Rightarrow> char" where
  "lowerChar c = (case map_of (zip upperLetters lowerLetters) c of None \<Rightarrow> c | Some l \<Rightarrow> l)"

definition toUpperCase :: "string \<Rightarrow> string" where
  "toUpperCase s = concat (map upperChar s)"

definition toLowerCase :: "string \<Rightarrow> string" where
  "toLowerCase s = map lowerChar s"

fun str_includes :: "string \<Rightarrow> string \<Rightarrow> bool" where
  \<comment> \<open>\<^verbatim>\<open>s.includes(pat)\<close>: \<open>pat\<close> occurs in \<open>s\<close> as a contiguous substring\<close>
  "str_includes [] pat = (pat = [])"
| "str_includes (c # cs) pat = (prefix pat (c # cs) \<or> str_includes cs pat)"

definition endsWith :: "string \<Rightarrow> string \<Rightarrow> bool" where
  "endsWith s pat = suffix pat s"

fun split :: "char \<Rightarrow> string \<Rightarrow> string list" where
  \<comment> \<open>\<^verbatim>\<open>s.split(sep)\<close> for a one-character separator: always at least one part\<close>
  "split sep [] = [[]]"
| "split sep (c # cs) =
     (if c = sep then [] # split sep cs
      else (case split sep cs of p # ps \<Rightarrow> (c # p) # ps | [] \<Rightarrow> [[c]]))"

fun join :: "string \<Rightarrow> string list \<Rightarrow> string" where
  "join sep [] = []"
| "join sep [p] = p"
| "join sep (p # q # ps) = p @ sep @ join sep (q # ps)"

definition cellAt :: "'a list \<Rightarrow> int \<Rightarrow> 'a option" where
  \<comment> \<open>\<^verbatim>\<open>cells[i]\<close> on a NodeList: \<^verbatim>\<open>undefined\<close> (\<open>None\<close>) outside the list, also at \<open>-1\<close>\<close>
  "cellAt xs i = (if 0 \<le> i \<and> i < int (length xs) then Some (xs ! nat i) else None)"

subsection \<open>Results of asynchronous calls\<close>

datatype error = Error string

type_synonym 'a result = "error + 'a"

subsection \<open>The DOM as the source queries it\<close>

record anchor =
  a_href :: string          \<comment> \<open>\<^verbatim>\<open>a.href\<close>, the resolved URL; empty without an href\<close>
  a_textContent :: string

record link =
  href :: string
  text' :: string             \<comment> \<open>the source's field \<^verbatim>\<open>text\<close>\<close>

record th =
  th_textContent :: string
  th_dataLabel :: "string option"    \<comment> \<open>\<^verbatim>\<open>getAttribute('data-label')\<close>, \<^verbatim>\<open>null\<close> when absent\<close>

record table =
  table_id :: string
  thead_th :: "th list"              \<comment> \<open>\<^verbatim>\<open>table.querySelectorAll('thead th')\<close>\<close>
  tbody_tr :: "string list list"     \<comment> \<open>per \<^verbatim>\<open>tbody tr\<close>, the \<^verbatim>\<open>textContent\<close> of its \<^verbatim>\<open>td\<close> cells\<close>

subsection \<open>extractTableData: the function evaluated in the page\<close>

type_synonym row = "(string \<times> string) list"
  \<comment> \<open>a JavaScript object with string values, its keys in insertion order\<close>

record indices =
  rank2025Index :: int
  rank2024Index :: int
  firmIndex :: int

definition normalizeHeader :: "string \<Rightarrow> string" where
  \<comment> \<open>\<^verbatim>\<open>h.toUpperCase().replace(/\s+/g, '')\<close>\<close>
  "normalizeHeader h = filter (\<lambda>c. \<not> isWhiteSpace c) (toUpperCase h)"

definition headerText :: "th \<Rightarrow> string" where
  "headerText c =
     (case th_dataLabel c of
        None \<Rightarrow> trim (th_textContent c)
      | Some dataLabel \<Rightarrow>
          if dataLabel \<noteq> [] \<and> trim dataLabel \<noteq> [] then trim dataLabel
          else trim (th_textContent c))"

definition scanHeader :: "string \<Rightarrow> int \<Rightarrow> indices \<Rightarrow> indices" where
  \<comment> \<open>the body of \<^verbatim>\<open>headers.forEach((h, idx) => ...)\<close>\<close>
  "scanHeader h idx st =
     (let normalized = normalizeHeader h;
          st1 =
            (if str_includes normalized ''2025'' \<and> str_includes normalized ''RANK''
             then st\<lparr>rank2025Index := idx\<rparr>
             else if (str_includes normalized ''2024'' \<or> str_includes normalized ''2023'')
                     \<and> str_includes normalized ''RANK''
             then (if rank2024Index st = -1 then st\<lparr>rank2024Index := idx\<rparr> else st)
             else st)
      in if normalized = ''FIRM'' \<or> normalized = ''FIRMS''
         then st1\<lparr>firmIndex := idx\<rparr> else st1)"

fun scanHeaders :: "string list \<Rightarrow> int \<Rightarrow> indices \<Rightarrow> indices" where
  "scanHeaders [] idx st = st"
| "scanHeaders (h # hs) idx st = scanHeaders hs (idx + 1) (scanHeader h idx st)"

definition findIndices :: "string list \<Rightarrow> indices" where
  "findIndices headers =
     scanHeaders headers 0 \<lparr>rank2025Index = -1, rank2024Index = -1, firmIndex = -1\<rparr>"

definition matchesRank2025 :: "string \<Rightarrow> bool" where
  \<comment> \<open>the rank-2025 pattern in the specification's words\<close>
  "matchesRank2025 h =
     (str_includes (normalizeHeader h) ''RANK'' \<and> str_includes (normalizeHeader h) ''2025'')"

definition matchesRank2024 :: "string \<Rightarrow> bool" where
  \<comment> \<open>the rank-2024 pattern in the specification's words\<close>
  "matchesRank2024 h =
     (str_includes (normalizeHeader h) ''RANK'' \<and>
      (str_includes (normalizeHeader h) ''2024'' \<or> str_includes (normalizeHeader h) ''2023''))"

definition isFirmHeader :: "string \<Rightarrow> bool" where
  \<comment> \<open>the firm pattern in the specification's words\<close>
  "isFirmHeader h = (normalizeHeader h = ''FIRM'' \<or> normalizeHeader h = ''FIRMS'')"

definition parseFirm :: "string \<Rightarrow> string \<times> string" where
  \<comment> \<open>\<open>(companyName, location)\<close> from the trimmed text of the firm cell\<close>
  "parseFirm firmText =
     (if str_includes firmText '',''
      then (let parts = map trim (split CHR '','' firmText)
            in (hd parts, if length parts > 1 then join '', '' (tl parts) else ''''))
      else (firmText, ''''))"

definition processRow :: "indices \<Rightarrow> string list \<Rightarrow> row option" where
  \<comment> \<open>the body of \<^verbatim>\<open>dataRows.forEach(tr => ...)\<close>; \<open>None\<close> when the row is skipped\<close>
  "processRow ix cells =
     (if cells = [] then None
      else case cellAt cells (firmIndex ix) of
        None \<Rightarrow> None
      | Some firmCell \<Rightarrow>
          (let (companyName, location) = parseFirm (trim firmCell);
               rowData = [(''Company Name'', companyName), (''Location'', location)];
               rowData1 =
                 (case (if rank2025Index ix \<noteq> -1 then cellAt cells (rank2025Index ix) else None) of
                    Some c \<Rightarrow> rowData @ [(''RANK 2025'', trim c)]
                  | None \<Rightarrow> rowData);
               rowData2 =
                 (case (if rank2024Index ix \<noteq> -1 then cellAt cells (rank2024Index ix) else None) of
                    Some c \<Rightarrow> rowData1 @ [(''RANK 2024'', trim c)]
                  | None \<Rightarrow> rowData1)
           in Some rowData2))"

definition tableRows :: "table \<Rightarrow> row list option" where
  \<comment> \<open>the \<^verbatim>\<open>rows\<close> of one table; \<open>None\<close> when the callback returns early (table skipped)\<close>
  "tableRows t =
     (let headers = map headerText (thead_th t)
      in if headers = [] then None
         else (let ix = findIndices headers
               in if firmIndex ix = -1 then None
                  else Some (List.map_filter (processRow ix) (tbody_tr t))))"

definition rowsOf :: "table \<Rightarrow> row list" where
  \<comment> \<open>the rows a table contributes: none when it is skipped\<close>
  "rowsOf t = (case tableRows t of None \<Rightarrow> [] | Some rows \<Rightarrow> rows)"

record tableResult =
  tableIndex :: nat
  tr_data :: "row list"
  tr_rowCount :: nat

fun tablesLoop :: "table list \<Rightarrow> nat \<Rightarrow> tableResult list" where
  \<comment> \<open>\<^verbatim>\<open>tables.forEach((table, tableIndex) => ...)\<close>, pushing to \<^verbatim>\<open>tablesResults\<close>\<close>
  "tablesLoop [] k = []"
| "tablesLoop (t # ts) k =
     (case tableRows t of
        None \<Rightarrow> tablesLoop ts (k + 1)
      | Some rows \<Rightarrow>
          if length rows > 0
          then \<lparr>tableIndex = k, tr_data = rows, tr_rowCount = length rows\<rparr> # tablesLoop ts (k + 1)
          else tablesLoop ts (k + 1))"

definition evaluateTables :: "table list \<Rightarrow> tableResult list" where
  \<comment> \<open>the argument is \<^verbatim>\<open>document.querySelectorAll('table')\<close>\<close>
  "evaluateTables allTables =
     tablesLoop (filter (\<lambda>t. table_id t \<noteq> ''paginationTable'') allTables) 0"

record extraction =
  ex_headers :: "string list"
  ex_data :: "row list"
  tablesFound :: nat

definition canonicalHeaders :: "string list" where
  "canonicalHeaders = [''RANK 2025'', ''RANK 2024'', ''Company Name'', ''Location'']"

subsection \<open>A loaded page: one field per observation the crawler makes of it\<close>

record snapshot =
  hasBody :: bool            \<comment> \<open>\<^verbatim>\<open>document.body\<close> is not null\<close>
  title :: string            \<comment> \<open>\<^verbatim>\<open>document.title\<close>\<close>
  innerText :: string        \<comment> \<open>\<^verbatim>\<open>document.body.innerText\<close>\<close>
  challengeForm :: bool      \<comment> \<open>\<^verbatim>\<open>document.querySelector('#challenge-form') !== null\<close>\<close>
  rayId :: bool              \<comment> \<open>\<^verbatim>\<open>document.querySelector('.ray_id') !== null\<close>\<close>
  cfCaptchaKind :: bool      \<comment> \<open>\<^verbatim>\<open>document.querySelector('[name="cf_captcha_kind"]') !== null\<close>\<close>

record page =
  challengeFirst :: "snapshot result"          \<comment> \<open>the first \<^verbatim>\<open>page.evaluate\<close> of the gate\<close>
  challengePoll :: "nat \<Rightarrow> snapshot result"   \<comment> \<open>the \<^verbatim>\<open>page.evaluate\<close> of polling iteration \<open>attempts\<close>\<close>
  paginationEval :: "anchor list option result"
    \<comment> \<open>the \<^verbatim>\<open>a[href]\<close> anchors of \<^verbatim>\<open>table#paginationTable\<close>; \<open>None\<close> without such a table\<close>
  tableWait :: "unit result"                   \<comment> \<open>\<^verbatim>\<open>page.waitForSelector('table', ...)\<close>\<close>
  tablesEval :: "table list result"            \<comment> \<open>\<^verbatim>\<open>document.querySelectorAll('table')\<close>\<close>
  anchorsEval :: "(string \<Rightarrow> anchor list) result"
    \<comment> \<open>\<^verbatim>\<open>document.querySelectorAll(selector)\<close>, for the selectors of getToplistLinks\<close>

subsection \<open>waitForCloudflareChallenge\<close>

definition isChallenge :: "snapshot \<Rightarrow> bool" where
  "isChallenge d =
     (if \<not> hasBody d then False
      else (let title = toLowerCase (title d); bodyText = toLowerCase (innerText d)
            in str_includes title ''just a moment'' \<or>
               str_includes title ''verify'' \<or>
               str_includes bodyText ''verify you are human'' \<or>
               str_includes bodyText ''checking your browser'' \<or>
               challengeForm d \<or> rayId d \<or> cfCaptchaKind d))"

definition stillOnChallenge :: "snapshot \<Rightarrow> bool" where
  "stillOnChallenge d =
     (if \<not> hasBody d then True
      else (let title = toLowerCase (title d); bodyText = toLowerCase (innerText d)
            in str_includes title ''just a moment'' \<or>
               str_includes title ''verify'' \<or>
               str_includes bodyText ''verify you are human'' \<or>
               str_includes bodyText ''checking your browser''))"

definition maxAttempts :: nat where
  "maxAttempts = 60"

definition pollEvaluate :: "snapshot result \<Rightarrow> bool" where
  \<comment> \<open>\<^verbatim>\<open>page.evaluate(...).catch(() => true)\<close>\<close>
  "pollEvaluate r = (case r of Inl e \<Rightarrow> True | Inr d \<Rightarrow> stillOnChallenge d)"

function pollLoop :: "(nat \<Rightarrow> snapshot result) \<Rightarrow> nat \<Rightarrow> bool" where
  "pollLoop poll attempts =
     (if attempts < maxAttempts
      then (if \<not> pollEvaluate (poll attempts) then True else pollLoop poll (attempts + 1))
      else False)"
  by pat_completeness auto
termination
  by (relation "measure (\<lambda>(poll, attempts). maxAttempts - attempts)") auto

definition challengeBody :: "page \<Rightarrow> bool result" where
  \<comment> \<open>the \<^verbatim>\<open>try\<close> block; the wait for \<^verbatim>\<open>body\<close> swallows its own failure\<close>
  "challengeBody pg =
     (case challengeFirst pg of
        Inl e \<Rightarrow> Inl e
      | Inr d \<Rightarrow> if isChallenge d then Inr (pollLoop (challengePoll pg) 0) else Inr True)"

definition waitForCloudflareChallenge :: "page \<Rightarrow> bool result" where
  "waitForCloudflareChallenge pg =
     (case challengeBody pg of Inl error \<Rightarrow> Inr False | Inr b \<Rightarrow> Inr b)"

subsection \<open>getPaginationLinks\<close>

definition pushLinks :: "anchor list \<Rightarrow> link list" where
  \<comment> \<open>\<^verbatim>\<open>forEach(a => { if (a.href && a.href.includes('toplists')) links.push({...}) })\<close>\<close>
  "pushLinks anchors =
     map (\<lambda>a. \<lparr>href = a_href a, text' = trim (a_textContent a)\<rparr>)
       (filter (\<lambda>a. a_href a \<noteq> [] \<and> str_includes (a_href a) ''toplists'') anchors)"

definition getPaginationLinks :: "page \<Rightarrow> link list result" where
  "getPaginationLinks pg =
     (case paginationEval pg of
        Inl e \<Rightarrow> Inl e
      | Inr None \<Rightarrow> Inr []
      | Inr (Some anchors) \<Rightarrow> Inr (pushLinks anchors))"

subsection \<open>extractTableData\<close>

definition extractBody :: "page \<Rightarrow> extraction option result" where
  \<comment> \<open>the \<^verbatim>\<open>try\<close> block: the wait's rejection is swallowed by its own \<^verbatim>\<open>.catch\<close>\<close>
  "extractBody pg =
     (case (case tableWait pg of Inl e \<Rightarrow> Inr None | Inr u \<Rightarrow> Inr (Some u)) of
        Inl e \<Rightarrow> Inl (e :: error)
      | Inr waited \<Rightarrow>
          (case tablesEval pg of
             Inl e \<Rightarrow> Inl e
           | Inr allTables \<Rightarrow>
               (let allTablesData = evaluateTables allTables
                in if length allTablesData > 0
                   then Inr (Some \<lparr>ex_headers = canonicalHeaders,
                                   ex_data = concat (map tr_data allTablesData),
                                   tablesFound = length allTablesData\<rparr>)
                   else Inr None)))"

definition extractTableData :: "page \<Rightarrow> extraction option result" where
  "extractTableData pg =
     (case extractBody pg of Inl error \<Rightarrow> Inr None | Inr r \<Rightarrow> Inr r)"

subsection \<open>crawlToplistPage\<close>

record world =
  navCount :: nat                                  \<comment> \<open>navigations made so far\<close>
  respond :: "nat \<Rightarrow> string \<Rightarrow> page result"     \<comment> \<open>what the \<open>n\<close>-th navigation, to a URL, loads\<close>

definition goto :: "world \<Rightarrow> string \<Rightarrow> page result \<times> world" where
  "goto w u = (respond w (navCount w) u, w\<lparr>navCount := navCount w + 1\<rparr>)"

record toplistResult =
  listName :: string
  url :: string
  tl_headers :: "string list"
  tl_data :: "row list"
  rowCount :: nat
  paginatedPages :: nat

definition pushData :: "row list \<Rightarrow> extraction option \<Rightarrow> row list" where
  \<comment> \<open>\<^verbatim>\<open>if (pageData && pageData.data) allData.push(...pageData.data)\<close>\<close>
  "pushData allData pageData =
     (case pageData of None \<Rightarrow> allData | Some d \<Rightarrow> allData @ ex_data d)"

definition paginationPage :: "page \<Rightarrow> extraction option result" where
  \<comment> \<open>the inner \<^verbatim>\<open>try\<close> block after the navigation\<close>
  "paginationPage pg =
     (case waitForCloudflareChallenge pg of
        Inl e \<Rightarrow> Inl e
      | Inr passed \<Rightarrow> extractTableData pg)"

fun paginationLoop :: "world \<Rightarrow> link list \<Rightarrow> row list \<Rightarrow> row list \<times> world" where
  "paginationLoop w [] allData = (allData, w)"
| "paginationLoop w (paginationLink # rest) allData =
     (case goto w (href paginationLink) of
        (Inl error, w1) \<Rightarrow> paginationLoop w1 rest allData
      | (Inr pg, w1) \<Rightarrow>
          (case paginationPage pg of
             Inl error \<Rightarrow> paginationLoop w1 rest allData
           | Inr pageData \<Rightarrow> paginationLoop w1 rest (pushData allData pageData)))"

definition crawlMain :: "world \<Rightarrow> page \<Rightarrow> string \<Rightarrow> string \<Rightarrow> toplistResult option result \<times> world" where
  \<comment> \<open>the outer \<^verbatim>\<open>try\<close> block after the navigation to the main page\<close>
  "crawlMain w pg u name =
     (case waitForCloudflareChallenge pg of
        Inl e \<Rightarrow> (Inl e, w)
      | Inr passed \<Rightarrow>
     (case getPaginationLinks pg of
        Inl e \<Rightarrow> (Inl e, w)
      | Inr paginationLinks \<Rightarrow>
     (case extractTableData pg of
        Inl e \<Rightarrow> (Inl e, w)
      | Inr mainPageData \<Rightarrow>
          (let (allData, w2) =
                 (if length paginationLinks > 0
                  then paginationLoop w paginationLinks (pushData [] mainPageData)
                  else (pushData [] mainPageData, w))
           in if length allData > 0
              then (Inr (Some \<lparr>listName = name, url = u,
                               tl_headers = canonicalHeaders,
                               tl_data = allData,
                               rowCount = length allData,
                               paginatedPages =
                                 (if length paginationLinks > 0
                                  then length paginationLinks + 1 else 1)\<rparr>), w2)
              else (Inr None, w2)))))"

definition crawlToplistPage :: "world \<Rightarrow> string \<Rightarrow> string \<Rightarrow> toplistResult option result \<times> world" where
  "crawlToplistPage w u name =
     (case goto w u of
        (Inl error, w1) \<Rightarrow> (Inr None, w1)
      | (Inr pg, w1) \<Rightarrow>
          (case crawlMain w1 pg u name of
             (Inl error, w2) \<Rightarrow> (Inr None, w2)
           | (Inr r, w2) \<Rightarrow> (Inr r, w2)))"

subsection \<open>getToplistLinks\<close>

definition selectors :: "string list" where
  \<open>selectors =
     [''div.linkArrow a'', ''.linkArrow a'', ''a[href*="toplists"]'', ''a[href*="rankings"]'',
      ''a.link-arrow'', ''.link-arrow a'', ''div[class*="arrow"] a'']\<close>

fun selectorLoop :: "(string \<Rightarrow> anchor list) \<Rightarrow> string list \<Rightarrow> link list \<Rightarrow> link list" where
  \<comment> \<open>\<^verbatim>\<open>for (const selector of selectors) { ... if (linkArray.length > 0) break; }\<close>\<close>
  "selectorLoop querySelectorAll [] linkArray = linkArray"
| "selectorLoop querySelectorAll (selector # rest) linkArray =
     (let elements = querySelectorAll selector
      in if length elements > 0
         then (let linkArray1 = linkArray @ pushLinks elements
               in if length linkArray1 > 0 then linkArray1
                  else selectorLoop querySelectorAll rest linkArray1)
         else selectorLoop querySelectorAll rest linkArray)"

definition fallbackLinks :: "anchor list \<Rightarrow> link list" where
  "fallbackLinks anchors =
     map (\<lambda>a. \<lparr>href = a_href a, text' = trim (a_textContent a)\<rparr>)
       (filter (\<lambda>a. a_href a \<noteq> [] \<and> str_includes (a_href a) ''toplists''
                    \<and> \<not> endsWith (a_href a) ''/toplists'') anchors)"

definition collectLinks :: "(string \<Rightarrow> anchor list) \<Rightarrow> link list" where
  \<comment> \<open>\<^verbatim>\<open>linkArray\<close> as it stands before the duplicates are removed\<close>
  "collectLinks querySelectorAll =
     (let linkArray = selectorLoop querySelectorAll selectors []
      in if length linkArray = 0 then fallbackLinks (querySelectorAll ''a'') else linkArray)"

fun uniqueLoop :: "link list \<Rightarrow> string set \<Rightarrow> link list \<Rightarrow> link list" where
  \<comment> \<open>\<^verbatim>\<open>linkArray.forEach(link => { if (!seenUrls.has(link.href)) ... })\<close>\<close>
  "uniqueLoop [] seenUrls uniqueLinks = uniqueLinks"
| "uniqueLoop (link # rest) seenUrls uniqueLinks =
     (if href link \<notin> seenUrls
      then uniqueLoop rest (insert (href link) seenUrls) (uniqueLinks @ [link])
      else uniqueLoop rest seenUrls uniqueLinks)"

fun firstOccurrences :: "link list \<Rightarrow> string set \<Rightarrow> link list" where
  \<comment> \<open>first-seen order in the specification's words: an entry is kept when no earlier
      entry, and no member of \<open>seen\<close>, has its \<open>href\<close>\<close>
  "firstOccurrences [] seen = []"
| "firstOccurrences (l # ls) seen =
     (if href l \<in> seen then firstOccurrences ls seen
      else l # firstOccurrences ls (insert (href l) seen))"

definition getToplistLinks :: "page \<Rightarrow> link list result" where
  "getToplistLinks pg =
     (case anchorsEval pg of
        Inl e \<Rightarrow> Inl e
      | Inr querySelectorAll \<Rightarrow> Inr (uniqueLoop (collectLinks querySelectorAll) {} []))"

subsection \<open>Concrete pages and headers used to exercise the theorems\<close>

definition challengedSnapshot :: snapshot where
  "challengedSnapshot =
     \<lparr>hasBody = True, title = ''Just a moment...'', innerText = ''Checking your browser'',
      challengeForm = False, rayId = False, cfCaptchaKind = False\<rparr>"

definition clearSnapshot :: snapshot where
  "clearSnapshot =
     \<lparr>hasBody = True, title = ''ENR Toplists'', innerText = ''Top 500 Design Firms'',
      challengeForm = False, rayId = False, cfCaptchaKind = False\<rparr>"

definition blankPage :: page where
  \<comment> \<open>a loaded page with no challenge, no pagination table, no table and no anchor\<close>
  "blankPage =
     \<lparr>challengeFirst = Inr clearSnapshot,
      challengePoll = (\<lambda>attempts. Inr clearSnapshot),
      paginationEval = Inr None,
      tableWait = Inl (Error ''Waiting for selector table failed''),
      tablesEval = Inr [],
      anchorsEval = Inr (\<lambda>selector. [])\<rparr>"

definition firstCheckFailsPage :: page where
  \<comment> \<open>the first \<^verbatim>\<open>page.evaluate\<close> of the gate rejects\<close>
  "firstCheckFailsPage =
     blankPage\<lparr>challengeFirst := Inl (Error ''Execution context was destroyed'')\<rparr>"

definition failsOncePoll :: "nat \<Rightarrow> snapshot result" where
  \<comment> \<open>polling: the first evaluation rejects, the later ones see a clear page\<close>
  "failsOncePoll attempts =
     (if attempts = 0 then Inl (Error ''Execution context was destroyed'') else Inr clearSnapshot)"

definition evalFailsPage :: page where
  \<comment> \<open>the table appears, and the extracting \<^verbatim>\<open>page.evaluate\<close> rejects\<close>
  "evalFailsPage =
     blankPage\<lparr>tableWait := Inr (), tablesEval := Inl (Error ''Execution context was destroyed'')\<rparr>"

definition rankTable :: table where
  "rankTable =
     \<lparr>table_id = ''toplist'',
      thead_th = [\<lparr>th_textContent = ''RANK 2025'', th_dataLabel = None\<rparr>,
                  \<lparr>th_textContent = ''Firm'', th_dataLabel = None\<rparr>],
      tbody_tr = [[''1'', ''AECOM, Dallas, Texas'']]\<rparr>"

definition revenueTable :: table where
  \<comment> \<open>rank columns, but no header that normalizes to FIRM or FIRMS\<close>
  "revenueTable =
     \<lparr>table_id = ''revenue'',
      thead_th = [\<lparr>th_textContent = ''RANK 2025'', th_dataLabel = None\<rparr>,
                  \<lparr>th_textContent = ''RANK 2024'', th_dataLabel = None\<rparr>,
                  \<lparr>th_textContent = ''FIRM NAME'', th_dataLabel = None\<rparr>],
      tbody_tr = [[''1'', ''2'', ''AECOM, Dallas, Texas'']]\<rparr>"

definition dataPage :: page where
  "dataPage = blankPage\<lparr>tableWait := Inr (), tablesEval := Inr [rankTable]\<rparr>"

definition mainUrl :: string where
  "mainUrl = ''https://www.enr.com/toplists/2025-Top-500-Design-Firms-Preview''"

definition p2Url :: string where
  "p2Url = ''https://www.enr.com/toplists/2025-Top-500-Design-Firms-2''"

definition p3Url :: string where
  "p3Url = ''https://www.enr.com/toplists/2025-Top-500-Design-Firms-3''"

definition paginatedMainPage :: page where
  \<comment> \<open>a main page whose pagination table links to two further pages\<close>
  "paginatedMainPage =
     dataPage\<lparr>paginationEval :=
       Inr (Some [\<lparr>a_href = p2Url, a_textContent = '' 101-200 ''\<rparr>,
                  \<lparr>a_href = p3Url, a_textContent = '' 201-300 ''\<rparr>])\<rparr>"

definition exampleWorld :: world where
  \<comment> \<open>the main page and page 2 load; the navigation to page 3 fails\<close>
  "exampleWorld =
     \<lparr>navCount = 0,
      respond = (\<lambda>n u. if u = mainUrl then Inr paginatedMainPage
                        else if u = p2Url then Inr dataPage
                        else Inl (Error ''Navigation timeout of 60000 ms exceeded''))\<rparr>"

definition exampleRow :: row where
  "exampleRow =
     [(''Company Name'', ''AECOM''), (''Location'', ''Dallas, Texas''), (''RANK 2025'', ''1'')]"

definition exampleResult :: toplistResult where
  "exampleResult =
     \<lparr>listName = ''Top 500 Design Firms'', url = mainUrl, tl_headers = canonicalHeaders,
      tl_data = [exampleRow, exampleRow], rowCount = 2, paginatedPages = 3\<rparr>"

definition newsAnchor :: anchor where
  "newsAnchor = \<lparr>a_href = ''https://www.enr.com/news'', a_textContent = ''News''\<rparr>"

definition top500Anchor :: anchor where
  "top500Anchor = \<lparr>a_href = mainUrl, a_textContent = '' Top 500 Design Firms ''\<rparr>"

definition top400Anchor :: anchor where
  "top400Anchor =
     \<lparr>a_href = ''https://www.enr.com/toplists/2025-Top-400-Contractors-Preview'',
      a_textContent = ''Top 400 Contractors''\<rparr>"

definition top500AgainAnchor :: anchor where
  \<comment> \<open>a second anchor to the same URL, with another label\<close>
  "top500AgainAnchor = \<lparr>a_href = mainUrl, a_textContent = ''View list''\<rparr>"

definition exampleQuery :: "string \<Rightarrow> anchor list" where
  \<comment> \<open>the first two strategies match an anchor that is no toplist; the third matches three\<close>
  "exampleQuery selector =
     (if selector = selectors ! 0 \<or> selector = selectors ! 1 then [newsAnchor]
      else if selector = selectors ! 2 then [top500Anchor, top400Anchor, top500AgainAnchor]
      else if selector = ''a'' then [newsAnchor, top500Anchor, top400Anchor, top500AgainAnchor]
      else [])"

definition indexPage :: page where
  "indexPage = blankPage\<lparr>anchorsEval := Inr exampleQuery\<rparr>"

definition top500Link :: link where
  "top500Link = \<lparr>href = mainUrl, text' = ''Top 500 Design Firms''\<rparr>"

definition top400Link :: link where
  "top400Link =
     \<lparr>href = ''https://www.enr.com/toplists/2025-Top-400-Contractors-Preview'',
      text' = ''Top 400 Contractors''\<rparr>"

definition top500AgainLink :: link where
  "top500AgainLink = \<lparr>href = mainUrl, text' = ''View list''\<rparr>"

definition mixedHeaders :: "string list" where
  \<comment> \<open>the first header names both years\<close>
  "mixedHeaders = [''RANK 2025 2024'', ''RANK 2024'', ''FIRM'']"

definition duplicateHeaders :: "string list" where
  \<comment> \<open>two rank-2025 columns and two rank-2024 columns\<close>
  "duplicateHeaders = [''Rank 2025'', ''rank 2023'', ''RANK  2025'', ''R a n k 2024'', ''Firms'']"

definition duplicateCells :: "string list" where
  "duplicateCells = [''1'', ''3'', ''2'', ''4'', ''AECOM'']"

definition duplicateRow :: row where
  "duplicateRow =
     [(''Company Name'', ''AECOM''), (''Location'', ''''),
      (''RANK 2025'', ''2''), (''RANK 2024'', ''3'')]"

definition nbspFirmHeaders :: "string list" where
  \<comment> \<open>the firm header ends in a no-break space\<close>
  "nbspFirmHeaders = [''RANK 2025'', ''FIRM'' @ [CHR 0xA0]]"

definition nbsp2024Headers :: "string list" where
  \<comment> \<open>the first rank-2024 header has a no-break space inside the year\<close>
  "nbsp2024Headers = [''RANK 20'' @ [CHR 0xA0] @ ''24'', ''RANK 2024'', ''FIRM'']"

definition nbsp2025Headers :: "string list" where
  \<comment> \<open>the last rank-2025 header has a no-break space inside the year\<close>
  "nbsp2025Headers = [''RANK 2025'', ''RANK 20'' @ [CHR 0xA0] @ ''25'', ''FIRM'']"

definition nbspFirm :: string where
  \<comment> \<open>a no-break space after the comma\<close>
  "nbspFirm = ''AECOM,'' @ [CHR 0xA0] @ ''Dallas''"

definition nbspHeaders :: "string list" where
  \<comment> \<open>the header texts of \<open>nbspTable\<close>, trimmed\<close>
  "nbspHeaders = [''RANK'' @ [CHR 0xA0] @ ''2025'', ''FIR'' @ [CHR 0xA0] @ ''M'']"

definition nbspCells :: "string list" where
  \<comment> \<open>a rank cell and a firm cell wrapped in no-break spaces\<close>
  "nbspCells = [[CHR 0xA0] @ ''1'' @ [CHR 0xA0], nbspFirm @ [CHR 0xA0]]"

definition nbspTable :: table where
  \<comment> \<open>a table whose header and cells carry no-break spaces\<close>
  "nbspTable =
     \<lparr>table_id = ''toplist'',
      thead_th = [\<lparr>th_textContent = ''RANK'' @ [CHR 0xA0] @ ''2025'', th_dataLabel = None\<rparr>,
                  \<lparr>th_textContent = [CHR 0xA0] @ ''FIR'' @ [CHR 0xA0] @ ''M'', th_dataLabel = None\<rparr>],
      tbody_tr = [nbspCells]\<rparr>"

definition nbspRow :: row where
  "nbspRow = [(''Company Name'', ''AECOM''), (''Location'', ''Dallas''), (''RANK 2025'', ''1'')]"

definition singleWorld :: world where
  \<comment> \<open>every navigation loads a page with one table and no pagination table\<close>
  "singleWorld = \<lparr>navCount = 0, respond = (\<lambda>n u. Inr dataPage)\<rparr>"

definition singleResult :: toplistResult where
  "singleResult =
     \<lparr>listName = ''Top 500 Design Firms'', url = mainUrl, tl_headers = canonicalHeaders,
      tl_data = [exampleRow], rowCount = 1, paginatedPages = 1\<rparr>"

section \<open>Auxiliary facts\<close>

lemma str_includes_iff: "str_includes s pat \<longleftrightarrow> (\<exists>ps ss. s = ps @ pat @ ss)"
proof (induction s)
  case Nil
  then show ?case by auto
next
  case (Cons c cs)
  show ?case
  proof
    assume "str_includes (c # cs) pat"
    then consider "prefix pat (c # cs)" | "str_includes cs pat" by auto
    then show "\<exists>ps ss. c # cs = ps @ pat @ ss"
    proof cases
      case 1
      then obtain ss where "c # cs = pat @ ss" by (auto simp: prefix_def)
      then have "c # cs = [] @ pat @ ss" by simp
      then show ?thesis by blast
    next
      case 2
      with Cons.IH obtain ps ss where "cs = ps @ pat @ ss" by blast
      then have "c # cs = (c # ps) @ pat @ ss" by simp
      then show ?thesis by blast
    qed
  next
    assume "\<exists>ps ss. c # cs = ps @ pat @ ss"
    then obtain ps ss where eq: "c # cs = ps @ pat @ ss" by blast
    show "str_includes (c # cs) pat"
    proof (cases ps)
      case Nil
      with eq have "prefix pat (c # cs)" by (simp add: prefix_def)
      then show ?thesis by simp
    next
      case (Cons p ps')
      with eq have "cs = ps' @ pat @ ss" by simp
      with Cons.IH have "str_includes cs pat" by blast
      then show ?thesis by simp
    qed
  qed
qed

lemma str_includes_single: "str_includes s [c] \<longleftrightarrow> c \<in> set s"
  by (induction s) auto

lemma split_nonempty: "split sep s \<noteq> []"
  by (induction s) (auto split: list.splits)

lemma split_no_sep: "sep \<notin> set s \<Longrightarrow> split sep s = [s]"
  by (induction s) auto

lemma split_first:
  "sep \<in> set s \<Longrightarrow>
   split sep s = takeWhile (\<lambda>c. c \<noteq> sep) s # split sep (tl (dropWhile (\<lambda>c. c \<noteq> sep) s))"
proof (induction s)
  case Nil
  then show ?case by simp
next
  case (Cons c cs)
  show ?case
  proof (cases "c = sep")
    case True
    then show ?thesis by simp
  next
    case False
    with Cons.prems have "sep \<in> set cs" by simp
    from Cons.IH [OF this] False show ?thesis by simp
  qed
qed

lemma scanHeader_rank2025:
  "rank2025Index (scanHeader h idx st) = (if matchesRank2025 h then idx else rank2025Index st)"
  by (auto simp: scanHeader_def matchesRank2025_def Let_def)

lemma scanHeader_rank2024:
  "rank2024Index (scanHeader h idx st) =
     (if \<not> matchesRank2025 h \<and> matchesRank2024 h \<and> rank2024Index st = -1 then idx
      else rank2024Index st)"
  by (auto simp: scanHeader_def matchesRank2025_def matchesRank2024_def Let_def)

lemma scanHeader_firm:
  "firmIndex (scanHeader h idx st) = (if isFirmHeader h then idx else firmIndex st)"
  by (auto simp: scanHeader_def isFirmHeader_def Let_def)

lemma scanHeaders_append:
  "scanHeaders (xs @ ys) k st = scanHeaders ys (k + int (length xs)) (scanHeaders xs k st)"
  by (induction xs arbitrary: k st) (auto simp: algebra_simps)

lemma scanHeaders_rank2025_none:
  "\<forall>h \<in> set hs. \<not> matchesRank2025 h \<Longrightarrow>
   rank2025Index (scanHeaders hs k st) = rank2025Index st"
  by (induction hs arbitrary: k st) (auto simp: scanHeader_rank2025)

lemma scanHeaders_rank2024_none:
  "\<forall>h \<in> set hs. \<not> (\<not> matchesRank2025 h \<and> matchesRank2024 h) \<Longrightarrow>
   rank2024Index (scanHeaders hs k st) = rank2024Index st"
  by (induction hs arbitrary: k st) (auto simp: scanHeader_rank2024)

lemma scanHeaders_rank2024_kept:
  "rank2024Index st \<noteq> -1 \<Longrightarrow> rank2024Index (scanHeaders hs k st) = rank2024Index st"
  by (induction hs arbitrary: k st) (auto simp: scanHeader_rank2024)

lemma scanHeaders_firm_none:
  "\<forall>h \<in> set hs. \<not> isFirmHeader h \<Longrightarrow> firmIndex (scanHeaders hs k st) = firmIndex st"
  by (induction hs arbitrary: k st) (auto simp: scanHeader_firm)

lemma scanHeaders_firm_at:
  "firmIndex (scanHeaders hs k st) = firmIndex st \<or>
   (\<exists>i < length hs. firmIndex (scanHeaders hs k st) = k + int i \<and> isFirmHeader (hs ! i))"
proof (induction hs arbitrary: k st)
  case Nil
  then show ?case by simp
next
  case (Cons h hs)
  from Cons.IH [of "k + 1" "scanHeader h k st"]
  show ?case
  proof
    assume eq: "firmIndex (scanHeaders hs (k + 1) (scanHeader h k st)) = firmIndex (scanHeader h k st)"
    show ?thesis
    proof (cases "isFirmHeader h")
      case True
      with eq have "firmIndex (scanHeaders (h # hs) k st) = k + int 0 \<and> isFirmHeader ((h # hs) ! 0)"
        by (simp add: scanHeader_firm)
      then show ?thesis by blast
    next
      case False
      with eq show ?thesis by (simp add: scanHeader_firm)
    qed
  next
    assume "\<exists>i < length hs. firmIndex (scanHeaders hs (k + 1) (scanHeader h k st)) = k + 1 + int i
              \<and> isFirmHeader (hs ! i)"
    then obtain i where i: "i < length hs"
      "firmIndex (scanHeaders hs (k + 1) (scanHeader h k st)) = k + 1 + int i" "isFirmHeader (hs ! i)"
      by blast
    then have "Suc i < length (h # hs) \<and> firmIndex (scanHeaders (h # hs) k st) = k + int (Suc i)
               \<and> isFirmHeader ((h # hs) ! Suc i)"
      by simp
    then show ?thesis by blast
  qed
qed

lemma split_at_index:
  "i < length hs \<Longrightarrow> hs = take i hs @ hs ! i # drop (Suc i) hs"
  by (simp add: id_take_nth_drop)

lemma rank2025_last_match:
  assumes "i < length hs" and "matchesRank2025 (hs ! i)"
    and "\<forall>j. i < j \<and> j < length hs \<longrightarrow> \<not> matchesRank2025 (hs ! j)"
  shows "rank2025Index (findIndices hs) = int i"
proof -
  let ?pre = "take i hs" and ?post = "drop (Suc i) hs"
  have hs: "hs = ?pre @ hs ! i # ?post" using assms(1) by (rule split_at_index)
  have post: "\<forall>h \<in> set ?post. \<not> matchesRank2025 h"
  proof
    fix h assume "h \<in> set ?post"
    then obtain n where "n < length ?post" "h = ?post ! n" by (auto simp: in_set_conv_nth)
    then have "h = hs ! (Suc i + n)" "Suc i + n < length hs" using assms(1) by auto
    with assms(3) show "\<not> matchesRank2025 h" by auto
  qed
  have len: "length ?pre = i" using assms(1) by simp
  have "findIndices hs = scanHeaders (?pre @ hs ! i # ?post) 0
          \<lparr>rank2025Index = -1, rank2024Index = -1, firmIndex = -1\<rparr>"
    unfolding findIndices_def using hs by simp
  also have "rank2025Index \<dots> = int i"
    using assms(2) post len
    by (simp add: scanHeaders_append scanHeaders_rank2025_none scanHeader_rank2025)
  finally show ?thesis .
qed

lemma rank2024_first_match:
  assumes "i < length hs" and "\<not> matchesRank2025 (hs ! i) \<and> matchesRank2024 (hs ! i)"
    and "\<forall>j < i. \<not> (\<not> matchesRank2025 (hs ! j) \<and> matchesRank2024 (hs ! j))"
  shows "rank2024Index (findIndices hs) = int i"
proof -
  let ?pre = "take i hs" and ?post = "drop (Suc i) hs"
  let ?st0 = "\<lparr>rank2025Index = -1, rank2024Index = -1, firmIndex = -1\<rparr>"
  have hs: "hs = ?pre @ hs ! i # ?post" using assms(1) by (rule split_at_index)
  have pre: "\<forall>h \<in> set ?pre. \<not> (\<not> matchesRank2025 h \<and> matchesRank2024 h)"
  proof
    fix h assume "h \<in> set ?pre"
    then obtain n where "n < length ?pre" "h = ?pre ! n" by (auto simp: in_set_conv_nth)
    then have "h = hs ! n" "n < i" by auto
    with assms(3) show "\<not> (\<not> matchesRank2025 h \<and> matchesRank2024 h)" by auto
  qed
  have len: "length ?pre = i" using assms(1) by simp
  have before: "rank2024Index (scanHeaders ?pre 0 ?st0) = -1"
    using pre by (simp add: scanHeaders_rank2024_none)
  have at: "rank2024Index (scanHeader (hs ! i) (int i) (scanHeaders ?pre 0 ?st0)) = int i"
    using assms(2) before by (simp add: scanHeader_rank2024)
  have "findIndices hs = scanHeaders (?pre @ hs ! i # ?post) 0 ?st0"
    unfolding findIndices_def using hs by simp
  also have "rank2024Index \<dots> = int i"
    using at len by (simp add: scanHeaders_append scanHeaders_rank2024_kept)
  finally show ?thesis .
qed

lemma rank2024_none:
  "\<forall>h \<in> set hs. \<not> (\<not> matchesRank2025 h \<and> matchesRank2024 h) \<Longrightarrow>
   rank2024Index (findIndices hs) = -1"
  by (simp add: findIndices_def scanHeaders_rank2024_none)

lemma firmIndex_resolved:
  "firmIndex (findIndices hs) = int i \<Longrightarrow> i < length hs \<and> isFirmHeader (hs ! i)"
  using scanHeaders_firm_at [of hs 0 "\<lparr>rank2025Index = -1, rank2024Index = -1, firmIndex = -1\<rparr>"]
  by (auto simp: findIndices_def)

lemma firmIndex_none:
  "\<forall>h \<in> set hs. \<not> isFirmHeader h \<Longrightarrow> firmIndex (findIndices hs) = -1"
  by (simp add: findIndices_def scanHeaders_firm_none)

lemma lowerChar_other: "c \<notin> set upperLetters \<Longrightarrow> lowerChar c = c"
proof -
  assume "c \<notin> set upperLetters"
  then have "map_of (zip upperLetters lowerLetters) c = None"
    by (simp add: map_of_eq_None_iff upperLetters_def lowerLetters_def)
  then show ?thesis by (simp add: lowerChar_def)
qed

lemma upperChar_other:
  "c \<notin> set lowerLetters \<Longrightarrow> c \<noteq> CHR 0xDF \<Longrightarrow> upperChar c = [c]"
proof -
  assume "c \<notin> set lowerLetters" and "c \<noteq> CHR 0xDF"
  moreover from this have "map_of (zip lowerLetters upperLetters) c = None"
    by (simp add: map_of_eq_None_iff upperLetters_def lowerLetters_def)
  ultimately show ?thesis by (simp add: upperChar_def)
qed

lemma upper_lower_letters:
  "list_all (\<lambda>c. upperChar (lowerChar c) = upperChar c) upperLetters"
  by code_simp

lemma upper_idem_letters:
  "list_all (\<lambda>c. concat (map upperChar (upperChar c)) = upperChar c) (CHR 0xDF # lowerLetters)"
  by code_simp

lemma filter_upper_letters:
  "list_all (\<lambda>c. filter (\<lambda>x. \<not> isWhiteSpace x) (upperChar c) =
                   (if isWhiteSpace c then [] else upperChar c)) (CHR 0xDF # lowerLetters)"
  by code_simp

lemma upperChar_lowerChar: "upperChar (lowerChar c) = upperChar c"
proof (cases "c \<in> set upperLetters")
  case True
  with upper_lower_letters show ?thesis by (simp add: list_all_iff)
next
  case False
  then show ?thesis by (simp add: lowerChar_other)
qed

lemma upperChar_idem: "concat (map upperChar (upperChar c)) = upperChar c"
proof (cases "c \<in> set (CHR 0xDF # lowerLetters)")
  case True
  with upper_idem_letters show ?thesis unfolding list_all_iff by blast
next
  case False
  then have "upperChar c = [c]" by (simp add: upperChar_other)
  then show ?thesis by simp
qed

lemma filter_upperChar:
  "filter (\<lambda>x. \<not> isWhiteSpace x) (upperChar c) = (if isWhiteSpace c then [] else upperChar c)"
proof (cases "c \<in> set (CHR 0xDF # lowerLetters)")
  case True
  with filter_upper_letters show ?thesis unfolding list_all_iff by blast
next
  case False
  then have "upperChar c = [c]" by (simp add: upperChar_other)
  then show ?thesis by simp
qed

lemma normalizeHeader_alt:
  "normalizeHeader h = concat (map upperChar (filter (\<lambda>c. \<not> isWhiteSpace c) h))"
  by (induction h) (simp_all add: normalizeHeader_def toUpperCase_def filter_upperChar)

lemma normalizeHeader_toLowerCase: "normalizeHeader (toLowerCase h) = normalizeHeader h"
  by (simp add: normalizeHeader_def toUpperCase_def toLowerCase_def o_def upperChar_lowerChar)

lemma toUpperCase_idem: "toUpperCase (toUpperCase h) = toUpperCase h"
  by (induction h) (simp_all add: toUpperCase_def upperChar_idem)

lemma normalizeHeader_toUpperCase: "normalizeHeader (toUpperCase h) = normalizeHeader h"
  by (simp add: normalizeHeader_def toUpperCase_idem)

lemma normalizeHeader_whitespace:
  "filter (\<lambda>c. \<not> isWhiteSpace c) h = filter (\<lambda>c. \<not> isWhiteSpace c) h' \<Longrightarrow>
   normalizeHeader h = normalizeHeader h'"
  by (simp add: normalizeHeader_alt)

lemma scanHeader_cong:
  "normalizeHeader h = normalizeHeader h' \<Longrightarrow> scanHeader h idx st = scanHeader h' idx st"
  by (simp add: scanHeader_def)

lemma tablesLoop_data: "concat (map tr_data (tablesLoop ts k)) = concat (map rowsOf ts)"
  by (induction ts arbitrary: k) (auto simp: rowsOf_def split: option.splits)

lemma tablesLoop_nonempty: "r \<in> set (tablesLoop ts k) \<Longrightarrow> tr_data r \<noteq> []"
  by (induction ts arbitrary: k) (auto split: option.splits if_splits)

lemma in_set_map_filter:
  "y \<in> set (List.map_filter f xs) \<longleftrightarrow> (\<exists>x \<in> set xs. f x = Some y)"
  by (induction xs) (auto split: option.splits)

lemma rowsOf_origin:
  assumes "row \<in> set (rowsOf t)"
  shows "firmIndex (findIndices (map headerText (thead_th t))) \<noteq> -1 \<and>
         (\<exists>cells \<in> set (tbody_tr t).
            processRow (findIndices (map headerText (thead_th t))) cells = Some row)"
  using assms
  by (auto simp: rowsOf_def tableRows_def Let_def in_set_map_filter split: if_splits)

lemma rowsOf_no_firm:
  "\<forall>c \<in> set (thead_th t). \<not> isFirmHeader (headerText c) \<Longrightarrow> tableRows t = None"
  by (simp add: tableRows_def Let_def firmIndex_none)

lemma processRow_keys:
  "processRow ix cells = Some row \<Longrightarrow>
   map fst row =
     [''Company Name'', ''Location''] @
     (if rank2025Index ix \<noteq> -1 \<and> cellAt cells (rank2025Index ix) \<noteq> None then [''RANK 2025''] else []) @
     (if rank2024Index ix \<noteq> -1 \<and> cellAt cells (rank2024Index ix) \<noteq> None then [''RANK 2024''] else [])"
  by (auto simp: processRow_def Let_def split: option.splits prod.splits if_splits)

lemma processRow_rank2025:
  "processRow ix cells = Some row \<Longrightarrow>
   map_of row ''RANK 2025'' =
     (if rank2025Index ix \<noteq> -1 then map_option trim (cellAt cells (rank2025Index ix)) else None)"
  by (auto simp: processRow_def Let_def split: option.splits prod.splits if_splits)

lemma processRow_rank2024:
  "processRow ix cells = Some row \<Longrightarrow>
   map_of row ''RANK 2024'' =
     (if rank2024Index ix \<noteq> -1 then map_option trim (cellAt cells (rank2024Index ix)) else None)"
  by (auto simp: processRow_def Let_def split: option.splits prod.splits if_splits)

lemma processRow_firm:
  "processRow ix cells = Some row \<Longrightarrow>
   \<exists>firmCell. cellAt cells (firmIndex ix) = Some firmCell \<and>
     map_of row ''Company Name'' = Some (fst (parseFirm (trim firmCell))) \<and>
     map_of row ''Location'' = Some (snd (parseFirm (trim firmCell)))"
  by (auto simp: processRow_def Let_def split: option.splits prod.splits if_splits)

lemma parseFirm_comma:
  assumes "CHR '','' \<in> set firmText"
  shows "parseFirm firmText =
     (trim (takeWhile (\<lambda>c. c \<noteq> CHR '','') firmText),
      join '', '' (map trim (split CHR '','' (tl (dropWhile (\<lambda>c. c \<noteq> CHR '','') firmText)))))"
proof -
  have inc: "str_includes firmText '',''" using assms by (simp add: str_includes_single)
  have "split CHR '','' (tl (dropWhile (\<lambda>c. c \<noteq> CHR '','') firmText)) \<noteq> []"
    by (rule split_nonempty)
  then show ?thesis
    using inc split_first [OF assms] by (simp add: parseFirm_def Let_def)
qed

lemma parseFirm_no_comma:
  "CHR '','' \<notin> set firmText \<Longrightarrow> parseFirm firmText = (firmText, '''')"
  by (simp add: parseFirm_def str_includes_single)

lemma pushLinks_toplists:
  "l \<in> set (pushLinks anchors) \<Longrightarrow> str_includes (href l) ''toplists''"
  by (auto simp: pushLinks_def)

lemma fallbackLinks_toplists:
  "l \<in> set (fallbackLinks anchors) \<Longrightarrow> str_includes (href l) ''toplists''"
  by (auto simp: fallbackLinks_def)

lemma pushLinks_Nil: "pushLinks [] = []"
  by (simp add: pushLinks_def)

lemma selectorLoop_miss:
  "pushLinks (qsa s) = [] \<Longrightarrow> selectorLoop qsa (s # rest) [] = selectorLoop qsa rest []"
  by (simp add: Let_def)

lemma selectorLoop_hit:
  assumes "pushLinks (qsa s) \<noteq> []"
  shows "selectorLoop qsa (s # rest) [] = pushLinks (qsa s)"
proof -
  have "qsa s \<noteq> []" using assms by (auto simp: pushLinks_Nil)
  with assms show ?thesis by (simp add: Let_def)
qed

declare selectorLoop.simps(2) [simp del]

lemma selectorLoop_skip:
  "\<forall>s \<in> set pre. pushLinks (qsa s) = [] \<Longrightarrow>
   selectorLoop qsa (pre @ rest) [] = selectorLoop qsa rest []"
proof (induction pre)
  case Nil
  then show ?case by simp
next
  case (Cons s pre)
  then have "pushLinks (qsa s) = []" by simp
  then have "selectorLoop qsa ((s # pre) @ rest) [] = selectorLoop qsa (pre @ rest) []"
    using selectorLoop_miss [of qsa s "pre @ rest"] by simp
  with Cons show ?case by simp
qed

lemma selectorLoop_first:
  assumes "sels = pre @ s # post" and "\<forall>s' \<in> set pre. pushLinks (qsa s') = []"
    and "pushLinks (qsa s) \<noteq> []"
  shows "selectorLoop qsa sels [] = pushLinks (qsa s)"
  using assms by (simp add: selectorLoop_skip selectorLoop_hit)

lemma selectorLoop_none:
  "\<forall>s \<in> set sels. pushLinks (qsa s) = [] \<Longrightarrow> selectorLoop qsa sels [] = []"
  using selectorLoop_skip [of sels qsa "[]"] by simp

lemma selectorLoop_cases:
  "selectorLoop qsa sels [] = [] \<or> (\<exists>s \<in> set sels. selectorLoop qsa sels [] = pushLinks (qsa s))"
proof (induction sels)
  case Nil
  then show ?case by simp
next
  case (Cons s sels)
  show ?case
  proof (cases "pushLinks (qsa s) = []")
    case True
    with Cons show ?thesis by (auto simp: selectorLoop_miss)
  next
    case False
    then show ?thesis by (auto simp: selectorLoop_hit)
  qed
qed

lemma selectorLoop_toplists:
  "l \<in> set (selectorLoop qsa sels []) \<Longrightarrow> str_includes (href l) ''toplists''"
  using selectorLoop_cases [of qsa sels] by (auto dest: pushLinks_toplists)

lemma collectLinks_toplists:
  "l \<in> set (collectLinks qsa) \<Longrightarrow> str_includes (href l) ''toplists''"
  by (auto simp: collectLinks_def Let_def split: if_splits
           dest: selectorLoop_toplists fallbackLinks_toplists)

lemma uniqueLoop_eq:
  "uniqueLoop ls seen acc = acc @ firstOccurrences ls seen"
  by (induction ls arbitrary: seen acc) auto

lemma firstOccurrences_hrefs:
  "set (map href (firstOccurrences ls seen)) = set (map href ls) - seen"
  by (induction ls arbitrary: seen) auto

lemma firstOccurrences_distinct: "distinct (map href (firstOccurrences ls seen))"
  by (induction ls arbitrary: seen) (auto simp: firstOccurrences_hrefs [simplified])

lemma firstOccurrences_subseq: "subseq (firstOccurrences ls seen) ls"
  by (induction ls arbitrary: seen) auto

lemma firstOccurrences_find:
  "l \<in> set (firstOccurrences ls seen) \<Longrightarrow> find (\<lambda>x. href x = href l) ls = Some l"
proof (induction ls arbitrary: seen)
  case Nil
  then show ?case by simp
next
  case (Cons a ls)
  show ?case
  proof (cases "href a \<in> seen")
    case True
    with Cons.prems have mem: "l \<in> set (firstOccurrences ls seen)" by simp
    then have "href l \<in> set (map href (firstOccurrences ls seen))" by simp
    then have "href l \<notin> seen" unfolding firstOccurrences_hrefs by simp
    with True have "href a \<noteq> href l" by auto
    with Cons.IH [OF mem] show ?thesis by simp
  next
    case False
    with Cons.prems consider "l = a" | "l \<in> set (firstOccurrences ls (insert (href a) seen))"
      by auto
    then show ?thesis
    proof cases
      case 1
      then show ?thesis by simp
    next
      case 2
      then have "href l \<in> set (map href (firstOccurrences ls (insert (href a) seen)))" by simp
      then have "href a \<noteq> href l" unfolding firstOccurrences_hrefs by auto
      with Cons.IH [OF 2] show ?thesis by simp
    qed
  qed
qed

declare pollLoop.simps [simp del]

lemma pollLoop_failed_step:
  "attempts < maxAttempts \<Longrightarrow> poll attempts = Inl e \<Longrightarrow>
   pollLoop poll attempts = pollLoop poll (attempts + 1)"
  by (subst pollLoop.simps) (simp add: pollEvaluate_def)

lemma pollLoop_cong:
  "\<forall>k \<ge> a. p k = q k \<Longrightarrow> pollLoop p a = pollLoop q a"
proof (induction p a rule: pollLoop.induct)
  case (1 poll attempts)
  have here: "poll attempts = q attempts" using "1.prems" by simp
  show ?case
  proof (cases "attempts < maxAttempts \<and> pollEvaluate (poll attempts)")
    case True
    then have "pollLoop poll (attempts + 1) = pollLoop q (attempts + 1)"
      using "1.IH" "1.prems" by simp
    with True here show ?thesis
      by (subst pollLoop.simps, subst (2) pollLoop.simps) simp
  next
    case False
    with here show ?thesis
      by (subst pollLoop.simps, subst (2) pollLoop.simps) auto
  qed
qed

lemma pollLoop_failure_as_challenge:
  assumes "poll attempts = Inl e" and "stillOnChallenge d"
  shows "pollLoop (poll(attempts := Inr d)) attempts = pollLoop poll attempts"
proof -
  have later: "pollLoop (poll(attempts := Inr d)) (attempts + 1) = pollLoop poll (attempts + 1)"
    by (rule pollLoop_cong) simp
  show ?thesis
    using assms later
    by (subst pollLoop.simps, subst (2) pollLoop.simps) (simp add: pollEvaluate_def)
qed

lemma waitForCloudflareChallenge_first_failure:
  "challengeFirst pg = Inl e \<Longrightarrow> waitForCloudflareChallenge pg = Inr False"
  by (simp add: waitForCloudflareChallenge_def challengeBody_def)

lemma waitForCloudflareChallenge_total: "\<exists>b. waitForCloudflareChallenge pg = Inr b"
  by (cases "challengeBody pg") (auto simp: waitForCloudflareChallenge_def)

lemma extractTableData_total: "\<exists>r. extractTableData pg = Inr r"
  by (cases "extractBody pg") (auto simp: extractTableData_def)

lemma extractTableData_eval_failure:
  "tablesEval pg = Inl e \<Longrightarrow> extractTableData pg = Inr None"
  by (simp add: extractTableData_def extractBody_def split: sum.splits)

lemma evaluateTables_Nil: "evaluateTables [] = []"
  by (simp add: evaluateTables_def)

lemma extractTableData_no_tables:
  "tablesEval pg = Inr [] \<Longrightarrow> extractTableData pg = Inr None"
  by (simp add: extractTableData_def extractBody_def evaluateTables_Nil split: sum.splits)

lemma extractTableData_Some:
  assumes "extractTableData pg = Inr (Some e)"
  shows "\<exists>allTables. tablesEval pg = Inr allTables \<and>
           ex_data e = concat (map rowsOf (filter (\<lambda>t. table_id t \<noteq> ''paginationTable'') allTables)) \<and>
           tablesFound e = length (evaluateTables allTables) \<and>
           0 < tablesFound e \<and> ex_data e \<noteq> []"
proof -
  from assms obtain allTables where ts: "tablesEval pg = Inr allTables"
    and ne: "evaluateTables allTables \<noteq> []"
    and e: "e = \<lparr>ex_headers = canonicalHeaders,
                  ex_data = concat (map tr_data (evaluateTables allTables)),
                  tablesFound = length (evaluateTables allTables)\<rparr>"
    by (auto simp: extractTableData_def extractBody_def Let_def split: sum.splits if_splits)
  from ne obtain r rs where rs: "evaluateTables allTables = r # rs" by (cases "evaluateTables allTables") auto
  then have "r \<in> set (tablesLoop (filter (\<lambda>t. table_id t \<noteq> ''paginationTable'') allTables) 0)"
    by (simp add: evaluateTables_def)
  then have "tr_data r \<noteq> []" by (rule tablesLoop_nonempty)
  with rs e have d_ne: "ex_data e \<noteq> []" by simp
  have d_data: "ex_data e = concat (map rowsOf (filter (\<lambda>t. table_id t \<noteq> ''paginationTable'') allTables))"
    using e by (simp add: evaluateTables_def tablesLoop_data)
  have d_found: "tablesFound e = length (evaluateTables allTables)" using e by simp
  have d_pos: "0 < tablesFound e" using d_found ne by simp
  from ts d_data d_found d_pos d_ne show ?thesis by blast
qed

lemma paginationLoop_world:
  "snd (paginationLoop w ls allData) = w\<lparr>navCount := navCount w + length ls\<rparr>"
proof (induction ls arbitrary: w allData)
  case Nil
  then show ?case by simp
next
  case (Cons l ls)
  show ?case
    by (simp add: goto_def Cons.IH split: sum.splits)
qed

lemma crawlToplistPage_Some:
  assumes "crawlToplistPage w u name = (Inr (Some r), w')"
  shows "\<exists>pg links. respond w (navCount w) u = Inr pg \<and> getPaginationLinks pg = Inr links \<and>
           paginatedPages r = length links + 1 \<and>
           navCount w' = navCount w + 1 + length links"
proof -
  from assms obtain pg where pg: "respond w (navCount w) u = Inr pg"
    and main: "crawlMain (w\<lparr>navCount := navCount w + 1\<rparr>) pg u name = (Inr (Some r), w')"
    by (auto simp: crawlToplistPage_def goto_def split: sum.splits prod.splits)
  let ?w1 = "w\<lparr>navCount := navCount w + 1\<rparr>"
  from main obtain links mainPageData where links: "getPaginationLinks pg = Inr links"
    and ex: "extractTableData pg = Inr mainPageData"
    by (auto simp: crawlMain_def split: sum.splits)
  obtain passed where passed: "waitForCloudflareChallenge pg = Inr passed"
    using waitForCloudflareChallenge_total by blast
  show ?thesis
  proof (cases "links = []")
    case True
    with main links ex passed have "paginatedPages r = 1 \<and> w' = ?w1"
      by (auto simp: crawlMain_def Let_def split: if_splits)
    with True pg links show ?thesis by simp
  next
    case False
    obtain allData w2 where loop: "paginationLoop ?w1 links (pushData [] mainPageData) = (allData, w2)"
      by (cases "paginationLoop ?w1 links (pushData [] mainPageData)")
    have "w2 = ?w1\<lparr>navCount := navCount ?w1 + length links\<rparr>"
      using paginationLoop_world [of ?w1 links "pushData [] mainPageData"] loop by simp
    moreover from main links ex passed False loop
    have "paginatedPages r = length links + 1 \<and> w' = w2"
      by (auto simp: crawlMain_def Let_def split: if_splits)
    ultimately show ?thesis using pg links by simp
  qed
qed

lemma scanHeaders_firm_some:
  "0 \<le> k \<Longrightarrow> \<exists>h \<in> set hs. isFirmHeader h \<Longrightarrow> 0 \<le> firmIndex (scanHeaders hs k st)"
proof (induction hs arbitrary: k st)
  case Nil
  then show ?case by simp
next
  case (Cons h hs)
  show ?case
  proof (cases "\<exists>h' \<in> set hs. isFirmHeader h'")
    case True
    with Cons.IH [of "k + 1" "scanHeader h k st"] Cons.prems(1) show ?thesis by simp
  next
    case False
    with Cons.prems(2) have h: "isFirmHeader h" by auto
    from False have "firmIndex (scanHeaders hs (k + 1) (scanHeader h k st)) = firmIndex (scanHeader h k st)"
      by (simp add: scanHeaders_firm_none)
    with h Cons.prems(1) show ?thesis by (simp add: scanHeader_firm)
  qed
qed

lemma firmIndex_some:
  "\<exists>h \<in> set hs. isFirmHeader h \<Longrightarrow> firmIndex (findIndices hs) \<noteq> -1"
  using scanHeaders_firm_some [of 0 hs "\<lparr>rank2025Index = -1, rank2024Index = -1, firmIndex = -1\<rparr>"]
  by (auto simp: findIndices_def)

lemma evaluateTables_data:
  "concat (map tr_data (evaluateTables ts)) =
   concat (map rowsOf (filter (\<lambda>t. table_id t \<noteq> ''paginationTable'') ts))"
  by (simp add: evaluateTables_def tablesLoop_data)

lemma tablesLoop_skipped:
  "tableRows t = None \<Longrightarrow> tablesLoop [t] k = []"
  by simp

lemma firstOccurrences_subset: "set (firstOccurrences ls seen) \<subseteq> set ls"
  by (induction ls arbitrary: seen) auto

section \<open>Evaluation of the concrete inputs\<close>

lemmas string_eval =
  trim_def toUpperCase_def toLowerCase_def upperChar_def lowerChar_def
  lowerLetters_def upperLetters_def isWhiteSpace_def normalizeHeader_def

lemma duplicateHeaders_rank2025:
  "matchesRank2025 (duplicateHeaders ! 0)" "\<not> matchesRank2025 (duplicateHeaders ! 1)"
  "matchesRank2025 (duplicateHeaders ! 2)" "\<not> matchesRank2025 (duplicateHeaders ! 3)"
  "\<not> matchesRank2025 (duplicateHeaders ! 4)"
  by (simp_all add: duplicateHeaders_def matchesRank2025_def string_eval)

lemma duplicateHeaders_indices:
  "findIndices duplicateHeaders = \<lparr>rank2025Index = 2, rank2024Index = 1, firmIndex = 4\<rparr>"
  by (simp add: duplicateHeaders_def findIndices_def scanHeader_def string_eval)

lemma duplicateHeaders_row:
  "processRow \<lparr>rank2025Index = 2, rank2024Index = 1, firmIndex = 4\<rparr> duplicateCells =
     Some duplicateRow"
  by (simp add: duplicateCells_def duplicateRow_def processRow_def cellAt_def parseFirm_def string_eval)

lemma mixedHeaders_indices:
  "findIndices mixedHeaders = \<lparr>rank2025Index = 0, rank2024Index = 1, firmIndex = 2\<rparr>"
  by (simp add: mixedHeaders_def findIndices_def scanHeader_def string_eval)

lemma mixedHeaders_first: "matchesRank2024 (mixedHeaders ! 0)"
  by (simp add: mixedHeaders_def matchesRank2024_def string_eval)

lemma duplicateHeaders_rank2024:
  "\<not> matchesRank2024 (duplicateHeaders ! 0)" "matchesRank2024 (duplicateHeaders ! 1)"
  "matchesRank2024 (duplicateHeaders ! 3)"
  by (simp_all add: duplicateHeaders_def matchesRank2024_def string_eval)

lemma duplicateHeaders_firm: "normalizeHeader (duplicateHeaders ! 4) = ''FIRMS''"
  by (simp add: duplicateHeaders_def string_eval)

lemma revenueTable_headerTexts: "map headerText (thead_th revenueTable) = [''RANK 2025'', ''RANK 2024'', ''FIRM NAME'']"
  by (simp add: revenueTable_def headerText_def string_eval)

lemma revenueTable_normalized: "map normalizeHeader [''RANK 2025'', ''RANK 2024'', ''FIRM NAME''] = [''RANK2025'', ''RANK2024'', ''FIRMNAME'']"
  by (simp add: string_eval)

lemma revenueTable_no_firm: "\<forall>h \<in> set (map normalizeHeader (map headerText (thead_th revenueTable))). h \<noteq> ''FIRM'' \<and> h \<noteq> ''FIRMS''"
  unfolding revenueTable_headerTexts revenueTable_normalized by simp

lemma revenueTable_headers:
  "\<forall>c \<in> set (thead_th revenueTable).
     normalizeHeader (headerText c) \<noteq> ''FIRM'' \<and> normalizeHeader (headerText c) \<noteq> ''FIRMS''"
  using revenueTable_no_firm by simp

lemma rankTable_headerTexts: "map headerText (thead_th rankTable) = [''RANK 2025'', ''Firm'']"
  by (simp add: rankTable_def headerText_def string_eval)

lemma rankTable_indices:
  "findIndices [''RANK 2025'', ''Firm''] = \<lparr>rank2025Index = 0, rank2024Index = -1, firmIndex = 1\<rparr>"
  by (simp add: findIndices_def scanHeader_def string_eval)

lemma rankTable_row:
  "processRow \<lparr>rank2025Index = 0, rank2024Index = -1, firmIndex = 1\<rparr> [''1'', ''AECOM, Dallas, Texas'']
     = Some exampleRow"
  by (simp add: processRow_def cellAt_def parseFirm_def exampleRow_def string_eval)

lemma rankTable_tableRows: "tableRows rankTable = Some [exampleRow]"
proof -
  have "tbody_tr rankTable = [[''1'', ''AECOM, Dallas, Texas'']]" by (simp add: rankTable_def)
  then show ?thesis
    by (simp add: tableRows_def rankTable_headerTexts rankTable_indices rankTable_row)
qed

lemma rankTable_rows: "rowsOf rankTable = [exampleRow]"
  by (simp add: rowsOf_def rankTable_tableRows)

lemma rankTable_id: "table_id rankTable \<noteq> ''paginationTable''"
  by (simp add: rankTable_def)

lemma commaFirm_parse: "parseFirm ''AECOM, Dallas, Texas'' = (''AECOM'', ''Dallas, Texas'')"
  by (simp add: parseFirm_def string_eval)

lemma plainFirm_parse: "parseFirm ''AECOM'' = (''AECOM'', '''')"
  by (simp add: parseFirm_def)

lemma commaFirm_parts:
  "trim (takeWhile (\<lambda>c. c \<noteq> CHR '','') ''AECOM, Dallas, Texas'') = ''AECOM''"
  "join '', '' (map trim (split CHR '','' (tl (dropWhile (\<lambda>c. c \<noteq> CHR '','') ''AECOM, Dallas, Texas''))))
     = ''Dallas, Texas''"
  by (simp_all add: string_eval)

lemma dataPage_extract:
  "extractTableData dataPage =
     Inr (Some \<lparr>ex_headers = canonicalHeaders, ex_data = [exampleRow], tablesFound = 1\<rparr>)"
proof -
  have "tablesEval dataPage = Inr [rankTable]" "tableWait dataPage = Inr ()"
    by (simp_all add: dataPage_def)
  moreover have "evaluateTables [rankTable] =
      [\<lparr>tableIndex = 0, tr_data = [exampleRow], tr_rowCount = 1\<rparr>]"
    by (simp add: evaluateTables_def rankTable_id rankTable_tableRows)
  ultimately show ?thesis by (simp add: extractTableData_def extractBody_def)
qed

lemma blankPage_fields:
  "tableWait blankPage = Inl (Error ''Waiting for selector table failed'')"
  "tablesEval blankPage = Inr []"
  by (simp_all add: blankPage_def)

lemma evalFailsPage_fields:
  "tablesEval evalFailsPage = Inl (Error ''Execution context was destroyed'')"
  by (simp add: evalFailsPage_def)

lemma challengedSnapshot_lower:
  "toLowerCase (title challengedSnapshot) = ''just a moment...''"
  by (simp add: challengedSnapshot_def string_eval)

lemma challengedSnapshot_still: "stillOnChallenge challengedSnapshot"
proof -
  have "str_includes ''just a moment...'' ''just a moment''" by simp
  moreover have "hasBody challengedSnapshot" by (simp add: challengedSnapshot_def)
  ultimately show ?thesis by (simp add: stillOnChallenge_def challengedSnapshot_lower Let_def)
qed

lemma clearSnapshot_lower:
  "toLowerCase (title clearSnapshot) = ''enr toplists''"
  "toLowerCase (innerText clearSnapshot) = ''top 500 design firms''"
  by (simp_all add: clearSnapshot_def string_eval)

lemma clearSnapshot_markers:
  "\<not> str_includes ''enr toplists'' ''just a moment''"
  "\<not> str_includes ''enr toplists'' ''verify''"
  "\<not> str_includes ''top 500 design firms'' ''verify you are human''"
  "\<not> str_includes ''top 500 design firms'' ''checking your browser''"
  by simp_all

lemma clearSnapshot_clear: "\<not> stillOnChallenge clearSnapshot"
proof -
  have "hasBody clearSnapshot" by (simp add: clearSnapshot_def)
  then show ?thesis
    by (simp add: stillOnChallenge_def clearSnapshot_lower clearSnapshot_markers Let_def)
qed

lemma failsOncePoll_values:
  "failsOncePoll 0 = Inl (Error ''Execution context was destroyed'')"
  "failsOncePoll 1 = Inr clearSnapshot"
  "failsOncePoll (Suc 0) = Inr clearSnapshot"
  by (simp_all add: failsOncePoll_def)

lemma failsOncePoll_second: "pollLoop failsOncePoll 1 = True"
  by (subst pollLoop.simps)
     (simp add: failsOncePoll_values pollEvaluate_def clearSnapshot_clear maxAttempts_def)

lemma firstCheckFailsPage_first:
  "challengeFirst firstCheckFailsPage = Inl (Error ''Execution context was destroyed'')"
  by (simp add: firstCheckFailsPage_def)

lemma selectors_split:
  "selectors = [selectors ! 0, selectors ! 1] @ selectors ! 2 # drop 3 selectors"
  by (simp add: selectors_def)

lemma selectors_distinct:
  "selectors ! 2 \<noteq> selectors ! 0" "selectors ! 2 \<noteq> selectors ! 1"
  by (simp_all add: selectors_def)

lemma exampleQuery_values:
  "exampleQuery (selectors ! 0) = [newsAnchor]"
  "exampleQuery (selectors ! 1) = [newsAnchor]"
  "exampleQuery (selectors ! 2) = [top500Anchor, top400Anchor, top500AgainAnchor]"
  "exampleQuery (selectors ! Suc 0) = [newsAnchor]"
  using selectors_distinct by (simp_all add: exampleQuery_def)

lemma newsAnchor_rejected: "pushLinks [newsAnchor] = []"
proof -
  have "\<not> str_includes ''https://www.enr.com/news'' ''toplists''" by simp
  then show ?thesis by (simp add: pushLinks_def newsAnchor_def)
qed

lemma toplist_urls:
  "str_includes mainUrl ''toplists''"
  "str_includes ''https://www.enr.com/toplists/2025-Top-400-Contractors-Preview'' ''toplists''"
  "mainUrl \<noteq> []"
  "mainUrl \<noteq> ''https://www.enr.com/toplists/2025-Top-400-Contractors-Preview''"
  "''https://www.enr.com/toplists/2025-Top-400-Contractors-Preview'' \<noteq> mainUrl"
  by (simp_all add: mainUrl_def)

lemma anchor_labels:
  "trim '' Top 500 Design Firms '' = ''Top 500 Design Firms''"
  "trim ''Top 400 Contractors'' = ''Top 400 Contractors''"
  "trim ''View list'' = ''View list''"
  by (simp_all add: string_eval)

lemma toplistAnchors_pushed:
  "pushLinks [top500Anchor, top400Anchor, top500AgainAnchor] =
     [top500Link, top400Link, top500AgainLink]"
  by (simp add: pushLinks_def top500Anchor_def top400Anchor_def top500AgainAnchor_def
      top500Link_def top400Link_def top500AgainLink_def toplist_urls anchor_labels)

lemma exampleQuery_collect:
  "collectLinks exampleQuery = [top500Link, top400Link, top500AgainLink]"
proof -
  have "selectorLoop exampleQuery selectors [] = pushLinks (exampleQuery (selectors ! 2))"
    by (rule selectorLoop_first [OF selectors_split])
       (simp_all add: exampleQuery_values newsAnchor_rejected toplistAnchors_pushed)
  then show ?thesis
    by (simp add: collectLinks_def exampleQuery_values toplistAnchors_pushed)
qed

lemma example_hrefs:
  "href top500Link = mainUrl"
  "href top400Link = ''https://www.enr.com/toplists/2025-Top-400-Contractors-Preview''"
  "href top500AgainLink = mainUrl"
  by (simp_all add: top500Link_def top400Link_def top500AgainLink_def)

lemma example_unique:
  "uniqueLoop [top500Link, top400Link, top500AgainLink] {} [] = [top500Link, top400Link]"
  by (simp add: example_hrefs toplist_urls)

lemma indexPage_links: "getToplistLinks indexPage = Inr [top500Link, top400Link]"
proof -
  have "anchorsEval indexPage = Inr exampleQuery" by (simp add: indexPage_def)
  then show ?thesis
    by (simp only: getToplistLinks_def exampleQuery_collect example_unique sum.case)
qed

lemma clear_gate:
  assumes "challengeFirst pg = Inr clearSnapshot"
  shows "waitForCloudflareChallenge pg = Inr True"
proof -
  have "hasBody clearSnapshot" "\<not> challengeForm clearSnapshot" "\<not> rayId clearSnapshot"
    "\<not> cfCaptchaKind clearSnapshot"
    by (simp_all add: clearSnapshot_def)
  then have "\<not> isChallenge clearSnapshot"
    by (simp add: isChallenge_def clearSnapshot_lower clearSnapshot_markers Let_def)
  with assms show ?thesis by (simp add: waitForCloudflareChallenge_def challengeBody_def)
qed

lemma dataPage_gate: "waitForCloudflareChallenge dataPage = Inr True"
  by (rule clear_gate) (simp add: dataPage_def blankPage_def)

lemma paginatedMainPage_gate: "waitForCloudflareChallenge paginatedMainPage = Inr True"
  by (rule clear_gate) (simp add: paginatedMainPage_def dataPage_def blankPage_def)

lemma rankTable_extract:
  assumes "tablesEval pg = Inr [rankTable]"
  shows "extractTableData pg =
     Inr (Some \<lparr>ex_headers = canonicalHeaders, ex_data = [exampleRow], tablesFound = 1\<rparr>)"
proof -
  have "evaluateTables [rankTable] =
      [\<lparr>tableIndex = 0, tr_data = [exampleRow], tr_rowCount = 1\<rparr>]"
    by (simp add: evaluateTables_def rankTable_id rankTable_tableRows)
  with assms show ?thesis
    by (simp add: extractTableData_def extractBody_def split: sum.splits)
qed

lemma paginatedMainPage_extract:
  "extractTableData paginatedMainPage =
     Inr (Some \<lparr>ex_headers = canonicalHeaders, ex_data = [exampleRow], tablesFound = 1\<rparr>)"
  by (rule rankTable_extract) (simp add: paginatedMainPage_def dataPage_def)

lemma pagination_urls:
  "str_includes p2Url ''toplists''" "str_includes p3Url ''toplists''"
  "p2Url \<noteq> []" "p3Url \<noteq> []"
  "p2Url \<noteq> mainUrl" "p3Url \<noteq> mainUrl" "p3Url \<noteq> p2Url"
  by (simp_all add: p2Url_def p3Url_def mainUrl_def)

lemma pagination_labels: "trim '' 101-200 '' = ''101-200''" "trim '' 201-300 '' = ''201-300''"
  by (simp_all add: string_eval)

lemma paginatedMainPage_links:
  "getPaginationLinks paginatedMainPage =
     Inr [\<lparr>href = p2Url, text' = ''101-200''\<rparr>, \<lparr>href = p3Url, text' = ''201-300''\<rparr>]"
  by (simp add: getPaginationLinks_def paginatedMainPage_def pushLinks_def
      pagination_urls pagination_labels)

lemma exampleWorld_respond:
  "respond exampleWorld n mainUrl = Inr paginatedMainPage"
  "respond exampleWorld n p2Url = Inr dataPage"
  "respond exampleWorld n p3Url = Inl (Error ''Navigation timeout of 60000 ms exceeded'')"
  by (simp_all add: exampleWorld_def pagination_urls)

lemma world_step:
  "respond (w\<lparr>navCount := k\<rparr>) = respond w" "navCount (w\<lparr>navCount := k\<rparr>) = k"
  by simp_all

lemma example_pagination:
  "paginationLoop (exampleWorld\<lparr>navCount := 1\<rparr>)
     [\<lparr>href = p2Url, text' = ''101-200''\<rparr>, \<lparr>href = p3Url, text' = ''201-300''\<rparr>] [exampleRow] =
   ([exampleRow, exampleRow], exampleWorld\<lparr>navCount := 3\<rparr>)"
  by (simp add: goto_def exampleWorld_respond paginationPage_def dataPage_gate dataPage_extract
      pushData_def)

lemma example_crawl:
  "crawlToplistPage exampleWorld mainUrl ''Top 500 Design Firms'' =
     (Inr (Some exampleResult), exampleWorld\<lparr>navCount := 3\<rparr>)"
proof -
  have nav: "navCount exampleWorld = 0" by (simp add: exampleWorld_def)
  have "crawlMain (exampleWorld\<lparr>navCount := 1\<rparr>) paginatedMainPage mainUrl ''Top 500 Design Firms'' =
     (Inr (Some exampleResult), exampleWorld\<lparr>navCount := 3\<rparr>)"
    by (simp add: crawlMain_def paginatedMainPage_gate paginatedMainPage_links
        paginatedMainPage_extract pushData_def example_pagination exampleResult_def
        del: paginationLoop.simps One_nat_def)
  then show ?thesis
    by (simp add: crawlToplistPage_def goto_def exampleWorld_respond nav del: One_nat_def)
qed

lemma single_crawl:
  "crawlToplistPage singleWorld mainUrl ''Top 500 Design Firms'' =
     (Inr (Some singleResult), singleWorld\<lparr>navCount := 1\<rparr>)"
proof -
  have "getPaginationLinks dataPage = Inr []"
    by (simp add: getPaginationLinks_def dataPage_def blankPage_def)
  then have "crawlMain (singleWorld\<lparr>navCount := 1\<rparr>) dataPage mainUrl ''Top 500 Design Firms'' =
     (Inr (Some singleResult), singleWorld\<lparr>navCount := 1\<rparr>)"
    by (simp add: crawlMain_def dataPage_gate dataPage_extract pushData_def singleResult_def
        del: One_nat_def)
  moreover have "navCount singleWorld = 0" "respond singleWorld 0 mainUrl = Inr dataPage"
    by (simp_all add: singleWorld_def)
  ultimately show ?thesis
    by (simp add: crawlToplistPage_def goto_def del: One_nat_def)
qed

lemma nbspFirmHeaders_normalized: "normalizeHeader (nbspFirmHeaders ! 1) = ''FIRM''"
  by (simp add: nbspFirmHeaders_def string_eval)

lemma nbspFirmHeaders_indices:
  "findIndices nbspFirmHeaders = \<lparr>rank2025Index = 0, rank2024Index = -1, firmIndex = 1\<rparr>"
  by (simp add: nbspFirmHeaders_def findIndices_def scanHeader_def string_eval)

lemma nbsp2024Headers_match:
  "matchesRank2024 (nbsp2024Headers ! 0)" "\<not> matchesRank2025 (nbsp2024Headers ! 0)"
  "matchesRank2024 (nbsp2024Headers ! 1)"
  by (simp_all add: nbsp2024Headers_def matchesRank2024_def matchesRank2025_def string_eval)

lemma nbsp2025Headers_match:
  "matchesRank2025 (nbsp2025Headers ! 0)" "matchesRank2025 (nbsp2025Headers ! 1)"
  "\<not> matchesRank2025 (nbsp2025Headers ! 2)"
  by (simp_all add: nbsp2025Headers_def matchesRank2025_def string_eval)

lemma nbspFirm_parts:
  "trim (takeWhile (\<lambda>c. c \<noteq> CHR '','') nbspFirm) = ''AECOM''"
  "join '', '' (map trim (split CHR '','' (tl (dropWhile (\<lambda>c. c \<noteq> CHR '','') nbspFirm)))) = ''Dallas''"
  by (simp_all add: nbspFirm_def string_eval)

lemma nbspFirm_comma: "CHR '','' \<in> set nbspFirm"
  by (simp add: nbspFirm_def)

lemma nbspTable_headerTexts: "map headerText (thead_th nbspTable) = nbspHeaders"
  by (simp add: nbspTable_def nbspHeaders_def headerText_def string_eval)

lemma nbspHeaders_normalized: "normalizeHeader (nbspHeaders ! 1) = ''FIRM''"
  by (simp add: nbspHeaders_def string_eval)

lemma nbspHeaders_indices:
  "findIndices nbspHeaders = \<lparr>rank2025Index = 0, rank2024Index = -1, firmIndex = 1\<rparr>"
  by (simp add: nbspHeaders_def findIndices_def scanHeader_def string_eval)

lemma nbspTable_row:
  "processRow \<lparr>rank2025Index = 0, rank2024Index = -1, firmIndex = 1\<rparr> nbspCells = Some nbspRow"
  by (simp add: nbspCells_def processRow_def cellAt_def parseFirm_def nbspFirm_def nbspRow_def
      string_eval)

lemma nbspTable_tableRows: "tableRows nbspTable = Some [nbspRow]"
proof -
  have "tbody_tr nbspTable = [nbspCells]" by (simp add: nbspTable_def)
  moreover have "nbspHeaders \<noteq> []" by (simp add: nbspHeaders_def)
  ultimately show ?thesis
    by (simp add: tableRows_def nbspTable_headerTexts nbspHeaders_indices nbspTable_row)
qed

section \<open>The claims\<close>

subsection \<open>C1\<close>

text \<open>
  C1 (as stated, refuted). When the first \<^verbatim>\<open>page.evaluate\<close> of the gate rejects, the error
  reaches the \<^verbatim>\<open>catch\<close> block of the function, which returns false: the call does not
  return true.
\<close>

theorem C1_first_check_failure_counterexample:
  "challengeFirst firstCheckFailsPage = Inl (Error ''Execution context was destroyed'') \<and>
   waitForCloudflareChallenge firstCheckFailsPage = Inr False \<and>
   waitForCloudflareChallenge firstCheckFailsPage \<noteq> Inr True"
  by (simp add: firstCheckFailsPage_first waitForCloudflareChallenge_def challengeBody_def)

text \<open>
  C1 (amended). In waitForCloudflareChallenge an evaluation failure during the first,
  non-polling check makes the call return false, while an evaluation failure during a
  polling iteration is treated as still challenged: the iteration goes on to the next
  attempt, exactly as it does when the evaluation succeeds on a page that still shows
  the challenge.
\<close>

theorem C1_evaluation_failure_asymmetry:
  "(challengeFirst pg = Inl e \<longrightarrow> waitForCloudflareChallenge pg = Inr False) \<and>
   (attempts < maxAttempts \<and> poll attempts = Inl e' \<longrightarrow>
      pollLoop poll attempts = pollLoop poll (attempts + 1)) \<and>
   (poll attempts = Inl e' \<and> stillOnChallenge d \<longrightarrow>
      pollLoop (poll(attempts := Inr d)) attempts = pollLoop poll attempts)"
  using waitForCloudflareChallenge_first_failure [of pg e]
    pollLoop_failed_step [of attempts poll e']
    pollLoop_failure_as_challenge [of poll attempts e' d]
  by blast

theorem C1_evaluation_failure_asymmetry_witness:
  "challengeFirst firstCheckFailsPage = Inl (Error ''Execution context was destroyed'') \<and>
   waitForCloudflareChallenge firstCheckFailsPage = Inr False \<and>
   failsOncePoll 0 = Inl (Error ''Execution context was destroyed'') \<and>
   pollLoop failsOncePoll 0 = pollLoop failsOncePoll 1 \<and>
   pollLoop failsOncePoll 0 = True \<and>
   pollLoop (failsOncePoll(0 := Inr challengedSnapshot)) 0 = pollLoop failsOncePoll 0"
proof -
  note inst = C1_evaluation_failure_asymmetry
    [of firstCheckFailsPage "Error ''Execution context was destroyed''" 0 failsOncePoll
        "Error ''Execution context was destroyed''" challengedSnapshot]
  have lt: "(0::nat) < maxAttempts" by (simp add: maxAttempts_def)
  from inst firstCheckFailsPage_first
  have r: "waitForCloudflareChallenge firstCheckFailsPage = Inr False" by blast
  from inst lt failsOncePoll_values(1)
  have "pollLoop failsOncePoll 0 = pollLoop failsOncePoll (0 + 1)" by blast
  then have step: "pollLoop failsOncePoll 0 = pollLoop failsOncePoll 1" by simp
  with failsOncePoll_second have val: "pollLoop failsOncePoll 0 = True" by simp
  from inst failsOncePoll_values(1) challengedSnapshot_still
  have same: "pollLoop (failsOncePoll(0 := Inr challengedSnapshot)) 0 = pollLoop failsOncePoll 0"
    by blast
  from firstCheckFailsPage_first r failsOncePoll_values(1) step val same
  show ?thesis by (intro conjI)
qed

subsection \<open>C2\<close>

text \<open>
  C2 (as stated, refuted). On a page where the wait for a table times out and no table
  exists, extractTableData returns null: there is no extraction object, so none with
  rows [] and tablesFound 0.
\<close>

theorem C2_empty_extraction_counterexample:
  "tableWait blankPage = Inl (Error ''Waiting for selector table failed'') \<and>
   tablesEval blankPage = Inr [] \<and>
   extractTableData blankPage = Inr None \<and>
   extractTableData blankPage \<noteq>
     Inr (Some \<lparr>ex_headers = canonicalHeaders, ex_data = [], tablesFound = 0\<rparr>)"
  by (simp add: blankPage_fields extractTableData_def extractBody_def evaluateTables_Nil)

text \<open>
  C2 (amended). For every page, if no table element appears within the bounded wait
  (the wait rejects and the page has no table) or the extracting evaluation raises,
  extractTableData returns null, and it never propagates an error to its caller: every
  call resolves. An extraction object is returned only with at least one table found
  and at least one row.
\<close>

theorem C2_extraction_failure_returns_null:
  "(\<exists>r. extractTableData pg = Inr r) \<and>
   (tablesEval pg = Inl e \<longrightarrow> extractTableData pg = Inr None) \<and>
   (tableWait pg = Inl e' \<and> tablesEval pg = Inr [] \<longrightarrow> extractTableData pg = Inr None) \<and>
   (extractTableData pg = Inr (Some x) \<longrightarrow> 0 < tablesFound x \<and> ex_data x \<noteq> [])"
  using extractTableData_total [of pg] extractTableData_eval_failure [of pg e]
    extractTableData_no_tables [of pg] extractTableData_Some [of pg x]
  by blast

theorem C2_extraction_failure_returns_null_witness:
  "tablesEval evalFailsPage = Inl (Error ''Execution context was destroyed'') \<and>
   extractTableData evalFailsPage = Inr None \<and>
   tableWait blankPage = Inl (Error ''Waiting for selector table failed'') \<and>
   tablesEval blankPage = Inr [] \<and>
   extractTableData blankPage = Inr None \<and>
   extractTableData dataPage =
     Inr (Some \<lparr>ex_headers = canonicalHeaders, ex_data = [exampleRow], tablesFound = 1\<rparr>) \<and>
   0 < tablesFound \<lparr>ex_headers = canonicalHeaders, ex_data = [exampleRow], tablesFound = 1\<rparr>"
proof -
  let ?x = "\<lparr>ex_headers = canonicalHeaders, ex_data = [exampleRow], tablesFound = 1\<rparr>"
  from C2_extraction_failure_returns_null
         [of evalFailsPage "Error ''Execution context was destroyed''" "Error []" ?x]
       evalFailsPage_fields
  have a: "extractTableData evalFailsPage = Inr None" by blast
  from C2_extraction_failure_returns_null
         [of blankPage "Error []" "Error ''Waiting for selector table failed''" ?x]
       blankPage_fields
  have b: "extractTableData blankPage = Inr None" by blast
  from C2_extraction_failure_returns_null [of dataPage "Error []" "Error []" ?x] dataPage_extract
  have c: "0 < tablesFound ?x" by blast
  from evalFailsPage_fields a blankPage_fields b dataPage_extract c
  show ?thesis by (intro conjI)
qed

subsection \<open>C3\<close>

text \<open>
  C3. In getToplistLinks the selector strategies are tried in their order. The first
  strategy that yields at least one anchor, that is, at least one matched anchor whose
  resolved URL is not empty and contains toplists, determines the collected list, which
  is exactly that strategy's qualifying anchors: no later strategy adds to it, and an
  earlier strategy whose matches all fail the test does not stop the search. Every
  anchor collected by the strategies, and every link returned, has toplists in its href.
\<close>

theorem C3_first_yielding_strategy_wins:
  "(selectors = pre @ s # post \<and> (\<forall>s' \<in> set pre. pushLinks (querySelectorAll s') = []) \<and>
    pushLinks (querySelectorAll s) \<noteq> [] \<longrightarrow>
      selectorLoop querySelectorAll selectors [] = pushLinks (querySelectorAll s) \<and>
      collectLinks querySelectorAll = pushLinks (querySelectorAll s)) \<and>
   (\<forall>l \<in> set (selectorLoop querySelectorAll selectors []). str_includes (href l) ''toplists'') \<and>
   (getToplistLinks pg = Inr links \<longrightarrow> (\<forall>l \<in> set links. str_includes (href l) ''toplists''))"
proof (intro conjI impI ballI)
  assume a: "selectors = pre @ s # post \<and> (\<forall>s' \<in> set pre. pushLinks (querySelectorAll s') = []) \<and>
    pushLinks (querySelectorAll s) \<noteq> []"
  then show loop: "selectorLoop querySelectorAll selectors [] = pushLinks (querySelectorAll s)"
    by (intro selectorLoop_first [of selectors pre s post]) auto
  with a show "collectLinks querySelectorAll = pushLinks (querySelectorAll s)"
    by (simp add: collectLinks_def)
next
  fix l assume "l \<in> set (selectorLoop querySelectorAll selectors [])"
  then show "str_includes (href l) ''toplists''" by (rule selectorLoop_toplists)
next
  fix l assume g: "getToplistLinks pg = Inr links" and l: "l \<in> set links"
  from g obtain q where "anchorsEval pg = Inr q" and "links = uniqueLoop (collectLinks q) {} []"
    by (auto simp: getToplistLinks_def split: sum.splits)
  with l have "l \<in> set (collectLinks q)"
    using firstOccurrences_subset [of "collectLinks q" "{}"] by (auto simp: uniqueLoop_eq)
  then show "str_includes (href l) ''toplists''" by (rule collectLinks_toplists)
qed

theorem C3_first_yielding_strategy_wins_witness:
  "exampleQuery (selectors ! 0) = [newsAnchor] \<and> pushLinks (exampleQuery (selectors ! 0)) = [] \<and>
   pushLinks (exampleQuery (selectors ! 2)) = [top500Link, top400Link, top500AgainLink] \<and>
   collectLinks exampleQuery = [top500Link, top400Link, top500AgainLink] \<and>
   getToplistLinks indexPage = Inr [top500Link, top400Link] \<and>
   str_includes (href top400Link) ''toplists''"
proof -
  note inst = C3_first_yielding_strategy_wins
    [of "[selectors ! 0, selectors ! 1]" "selectors ! 2" "drop 3 selectors" exampleQuery
        indexPage "[top500Link, top400Link]"]
  have pre: "\<forall>s' \<in> set [selectors ! 0, selectors ! 1]. pushLinks (exampleQuery s') = []"
    by (simp add: exampleQuery_values newsAnchor_rejected)
  have hit: "pushLinks (exampleQuery (selectors ! 2)) = [top500Link, top400Link, top500AgainLink]"
    by (simp add: exampleQuery_values toplistAnchors_pushed)
  then have ne: "pushLinks (exampleQuery (selectors ! 2)) \<noteq> []" by simp
  from inst selectors_split pre ne
  have "collectLinks exampleQuery = pushLinks (exampleQuery (selectors ! 2))" by blast
  with hit have coll: "collectLinks exampleQuery = [top500Link, top400Link, top500AgainLink]"
    by simp
  from inst indexPage_links
  have "\<forall>l \<in> set [top500Link, top400Link]. str_includes (href l) ''toplists''" by blast
  then have inc: "str_includes (href top400Link) ''toplists''" by simp
  have miss: "pushLinks (exampleQuery (selectors ! 0)) = []"
    by (simp add: exampleQuery_values newsAnchor_rejected)
  from exampleQuery_values(1) miss hit coll indexPage_links inc
  show ?thesis by (intro conjI)
qed

subsection \<open>C4\<close>

text \<open>
  C4. For every crawled toplist for which a result is returned, with n pagination links
  resolved from its main page, the result's page count (paginatedPages) is n + 1, and the
  crawl has navigated to the main page and to each of the n links, whether or not the
  navigation to a link or the extraction from it failed; without pagination links the
  page count is 1.
\<close>

theorem C4_page_count_counts_every_link:
  "crawlToplistPage w u name = (Inr (Some r), w') \<longrightarrow>
     (\<exists>pg links. respond w (navCount w) u = Inr pg \<and> getPaginationLinks pg = Inr links \<and>
        paginatedPages r = length links + 1 \<and>
        (links = [] \<longrightarrow> paginatedPages r = 1) \<and>
        navCount w' = navCount w + 1 + length links)"
proof
  assume "crawlToplistPage w u name = (Inr (Some r), w')"
  from crawlToplistPage_Some [OF this] obtain pg links
    where a: "respond w (navCount w) u = Inr pg" "getPaginationLinks pg = Inr links"
      "paginatedPages r = length links + 1" "navCount w' = navCount w + 1 + length links"
    by blast
  then have "links = [] \<longrightarrow> paginatedPages r = 1" by simp
  with a show "\<exists>pg links. respond w (navCount w) u = Inr pg \<and> getPaginationLinks pg = Inr links \<and>
        paginatedPages r = length links + 1 \<and>
        (links = [] \<longrightarrow> paginatedPages r = 1) \<and>
        navCount w' = navCount w + 1 + length links"
    by blast
qed

theorem C4_page_count_counts_every_link_witness:
  "crawlToplistPage exampleWorld mainUrl ''Top 500 Design Firms'' =
     (Inr (Some exampleResult), exampleWorld\<lparr>navCount := 3\<rparr>) \<and>
   getPaginationLinks paginatedMainPage =
     Inr [\<lparr>href = p2Url, text' = ''101-200''\<rparr>, \<lparr>href = p3Url, text' = ''201-300''\<rparr>] \<and>
   respond exampleWorld 2 p3Url = Inl (Error ''Navigation timeout of 60000 ms exceeded'') \<and>
   paginatedPages exampleResult = 3 \<and>
   crawlToplistPage singleWorld mainUrl ''Top 500 Design Firms'' =
     (Inr (Some singleResult), singleWorld\<lparr>navCount := 1\<rparr>) \<and>
   getPaginationLinks dataPage = Inr [] \<and>
   paginatedPages singleResult = 1"
proof -
  from C4_page_count_counts_every_link
         [of exampleWorld mainUrl "''Top 500 Design Firms''" exampleResult "exampleWorld\<lparr>navCount := 3\<rparr>"]
       example_crawl
  obtain pg links where pg: "respond exampleWorld (navCount exampleWorld) mainUrl = Inr pg"
    and links: "getPaginationLinks pg = Inr links"
    and count: "paginatedPages exampleResult = length links + 1"
    by blast
  from pg have "pg = paginatedMainPage" by (simp add: exampleWorld_respond)
  with links have "length links = 2" by (auto simp: paginatedMainPage_links)
  with count have three: "paginatedPages exampleResult = 3" by simp
  from C4_page_count_counts_every_link
         [of singleWorld mainUrl "''Top 500 Design Firms''" singleResult "singleWorld\<lparr>navCount := 1\<rparr>"]
       single_crawl
  obtain pg' links' where pg': "respond singleWorld (navCount singleWorld) mainUrl = Inr pg'"
    and links': "getPaginationLinks pg' = Inr links'"
    and one': "links' = [] \<longrightarrow> paginatedPages singleResult = 1"
    by blast
  from pg' have "pg' = dataPage" by (simp add: singleWorld_def)
  moreover have none: "getPaginationLinks dataPage = Inr []"
    by (simp add: getPaginationLinks_def dataPage_def blankPage_def)
  ultimately have "links' = []" using links' by simp
  with one' have one: "paginatedPages singleResult = 1" by simp
  from example_crawl paginatedMainPage_links exampleWorld_respond(3) [of 2] three
    single_crawl none one
  show ?thesis by (intro conjI)
qed

subsection \<open>C5\<close>

text \<open>
  C5. A header is resolved as the firm column only when its normalized form (upper case,
  white space removed) is exactly FIRM or FIRMS, and any header list with such a header
  resolves one. A table none of whose headers normalizes to FIRM or FIRMS is skipped: it
  yields no rows, whatever its other columns, so the rows extracted from a page are
  those of the page without that table, and a page holding only that table yields null.
\<close>

theorem C5_firm_header_exact_match:
  "(firmIndex (findIndices hs) = int i \<longrightarrow>
      i < length hs \<and>
      (normalizeHeader (hs ! i) = ''FIRM'' \<or> normalizeHeader (hs ! i) = ''FIRMS'')) \<and>
   ((\<exists>h \<in> set hs. normalizeHeader h = ''FIRM'' \<or> normalizeHeader h = ''FIRMS'') \<longrightarrow>
      firmIndex (findIndices hs) \<noteq> -1) \<and>
   ((\<forall>c \<in> set (thead_th t).
       normalizeHeader (headerText c) \<noteq> ''FIRM'' \<and> normalizeHeader (headerText c) \<noteq> ''FIRMS'') \<longrightarrow>
      tableRows t = None \<and>
      concat (map tr_data (evaluateTables (before @ t # after))) =
        concat (map tr_data (evaluateTables (before @ after))) \<and>
      (tablesEval pg = Inr [t] \<longrightarrow> extractTableData pg = Inr None))"
proof (intro conjI impI)
  assume "firmIndex (findIndices hs) = int i"
  then have "i < length hs \<and> isFirmHeader (hs ! i)" by (rule firmIndex_resolved)
  then show "i < length hs"
    and "normalizeHeader (hs ! i) = ''FIRM'' \<or> normalizeHeader (hs ! i) = ''FIRMS''"
    by (simp_all add: isFirmHeader_def)
next
  assume "\<exists>h \<in> set hs. normalizeHeader h = ''FIRM'' \<or> normalizeHeader h = ''FIRMS''"
  then have "\<exists>h \<in> set hs. isFirmHeader h" by (simp add: isFirmHeader_def)
  then show "firmIndex (findIndices hs) \<noteq> -1" by (rule firmIndex_some)
next
  assume none: "\<forall>c \<in> set (thead_th t).
       normalizeHeader (headerText c) \<noteq> ''FIRM'' \<and> normalizeHeader (headerText c) \<noteq> ''FIRMS''"
  then have "\<forall>c \<in> set (thead_th t). \<not> isFirmHeader (headerText c)"
    by (simp add: isFirmHeader_def)
  then show skipped: "tableRows t = None" by (rule rowsOf_no_firm)
  then have "rowsOf t = []" by (simp add: rowsOf_def)
  then show "concat (map tr_data (evaluateTables (before @ t # after))) =
        concat (map tr_data (evaluateTables (before @ after)))"
    by (simp add: evaluateTables_data)
  show "extractTableData pg = Inr None" if "tablesEval pg = Inr [t]"
    using that skipped
    by (simp add: extractTableData_def extractBody_def evaluateTables_def split: sum.splits)
qed

theorem C5_firm_header_exact_match_witness:
  "firmIndex (findIndices duplicateHeaders) = 4 \<and>
   normalizeHeader (duplicateHeaders ! 4) = ''FIRMS'' \<and>
   firmIndex (findIndices nbspFirmHeaders) = 1 \<and>
   normalizeHeader (nbspFirmHeaders ! 1) = ''FIRM'' \<and>
   firmIndex (findIndices nbspHeaders) \<noteq> -1 \<and>
   tableRows nbspTable = Some [nbspRow] \<and>
   tableRows revenueTable = None \<and>
   concat (map tr_data (evaluateTables [rankTable, revenueTable])) = [exampleRow] \<and>
   extractTableData (blankPage\<lparr>tablesEval := Inr [revenueTable]\<rparr>) = Inr None"
proof -
  let ?pg = "blankPage\<lparr>tablesEval := Inr [revenueTable]\<rparr>"
  note inst = C5_firm_header_exact_match [of duplicateHeaders 4 revenueTable "[rankTable]" "[]" "?pg"]
  have idx: "firmIndex (findIndices duplicateHeaders) = 4" by (simp add: duplicateHeaders_indices)
  have ev: "tablesEval ?pg = Inr [revenueTable]" by simp
  from inst idx have "normalizeHeader (duplicateHeaders ! 4) = ''FIRM'' \<or>
      normalizeHeader (duplicateHeaders ! 4) = ''FIRMS''"
    by simp
  with duplicateHeaders_firm have n: "normalizeHeader (duplicateHeaders ! 4) = ''FIRMS''" by simp
  note inst2 = C5_firm_header_exact_match [of nbspFirmHeaders 1 revenueTable "[]" "[]" "?pg"]
  have idx2: "firmIndex (findIndices nbspFirmHeaders) = 1" by (simp add: nbspFirmHeaders_indices)
  from inst2 idx2 have "normalizeHeader (nbspFirmHeaders ! 1) = ''FIRM'' \<or>
      normalizeHeader (nbspFirmHeaders ! 1) = ''FIRMS''"
    by simp
  with nbspFirmHeaders_normalized have n2: "normalizeHeader (nbspFirmHeaders ! 1) = ''FIRM''"
    by simp
  note inst3 = C5_firm_header_exact_match [of nbspHeaders 1 revenueTable "[]" "[]" "?pg"]
  have "nbspHeaders ! 1 \<in> set nbspHeaders" by (simp add: nbspHeaders_def)
  with nbspHeaders_normalized
  have "\<exists>h \<in> set nbspHeaders. normalizeHeader h = ''FIRM'' \<or> normalizeHeader h = ''FIRMS''"
    by blast
  with inst3 have r3: "firmIndex (findIndices nbspHeaders) \<noteq> -1" by blast
  from inst revenueTable_headers ev
  have skipped: "tableRows revenueTable = None"
    and same: "concat (map tr_data (evaluateTables ([rankTable] @ revenueTable # []))) =
        concat (map tr_data (evaluateTables ([rankTable] @ [])))"
    and null: "extractTableData ?pg = Inr None"
    by blast+
  have "concat (map tr_data (evaluateTables [rankTable])) = [exampleRow]"
    by (simp add: evaluateTables_data rankTable_rows rankTable_id)
  with same have rows: "concat (map tr_data (evaluateTables [rankTable, revenueTable])) = [exampleRow]"
    by simp
  from idx n idx2 n2 r3 nbspTable_tableRows skipped rows null show ?thesis by (intro conjI)
qed

subsection \<open>C6\<close>

text \<open>
  C6. For the trimmed text of a firm cell: when it contains a comma, companyName is the
  text before the first comma, trimmed, and location is the text after the first comma,
  split at its commas, each segment trimmed, the segments joined with a comma and a
  space; when it contains no comma, companyName is the whole text and location is
  empty. Every extracted row carries exactly these two values under the keys
  Company Name and Location.
\<close>

theorem C6_company_location_split:
  "(CHR '','' \<in> set firmText \<longrightarrow>
      parseFirm firmText =
        (trim (takeWhile (\<lambda>c. c \<noteq> CHR '','') firmText),
         join '', '' (map trim (split CHR '','' (tl (dropWhile (\<lambda>c. c \<noteq> CHR '','') firmText)))))) \<and>
   (CHR '','' \<notin> set firmText \<longrightarrow> parseFirm firmText = (firmText, '''')) \<and>
   (processRow ix cells = Some row \<longrightarrow>
      (\<exists>firmCell. cellAt cells (firmIndex ix) = Some firmCell \<and>
         map_of row ''Company Name'' = Some (fst (parseFirm (trim firmCell))) \<and>
         map_of row ''Location'' = Some (snd (parseFirm (trim firmCell)))))"
  using parseFirm_comma [of firmText] parseFirm_no_comma [of firmText]
    processRow_firm [of ix cells row]
  by blast

theorem C6_company_location_split_witness:
  "parseFirm ''AECOM, Dallas, Texas'' = (''AECOM'', ''Dallas, Texas'') \<and>
   parseFirm ''AECOM'' = (''AECOM'', '''') \<and>
   parseFirm nbspFirm = (''AECOM'', ''Dallas'') \<and>
   map_of exampleRow ''Company Name'' = Some ''AECOM'' \<and>
   map_of exampleRow ''Location'' = Some ''Dallas, Texas''"
proof -
  let ?ix = "\<lparr>rank2025Index = 0, rank2024Index = -1, firmIndex = 1\<rparr>"
  let ?cells = "[''1'', ''AECOM, Dallas, Texas'']"
  have comma: "CHR '','' \<in> set ''AECOM, Dallas, Texas''" by simp
  have plain: "CHR '','' \<notin> set ''AECOM''" by simp
  from C6_company_location_split [of "''AECOM, Dallas, Texas''" ?ix ?cells exampleRow] comma
  have "parseFirm ''AECOM, Dallas, Texas'' =
        (trim (takeWhile (\<lambda>c. c \<noteq> CHR '','') ''AECOM, Dallas, Texas''),
         join '', '' (map trim (split CHR '','' (tl (dropWhile (\<lambda>c. c \<noteq> CHR '','') ''AECOM, Dallas, Texas'')))))"
    by blast
  then have p1: "parseFirm ''AECOM, Dallas, Texas'' = (''AECOM'', ''Dallas, Texas'')"
    by (simp only: commaFirm_parts)
  from C6_company_location_split [of "''AECOM''" ?ix ?cells exampleRow] plain
  have p2: "parseFirm ''AECOM'' = (''AECOM'', '''')" by blast
  from C6_company_location_split [of nbspFirm ?ix ?cells exampleRow] nbspFirm_comma
  have "parseFirm nbspFirm =
        (trim (takeWhile (\<lambda>c. c \<noteq> CHR '','') nbspFirm),
         join '', '' (map trim (split CHR '','' (tl (dropWhile (\<lambda>c. c \<noteq> CHR '','') nbspFirm)))))"
    by blast
  then have p3: "parseFirm nbspFirm = (''AECOM'', ''Dallas'')"
    by (simp only: nbspFirm_parts)
  from C6_company_location_split [of "''AECOM''" ?ix ?cells exampleRow] rankTable_row
  obtain firmCell where cell: "cellAt ?cells (firmIndex ?ix) = Some firmCell"
    and name: "map_of exampleRow ''Company Name'' = Some (fst (parseFirm (trim firmCell)))"
    and loc: "map_of exampleRow ''Location'' = Some (snd (parseFirm (trim firmCell)))"
    by blast
  from cell have "firmCell = ''AECOM, Dallas, Texas''" by (simp add: cellAt_def)
  then have "trim firmCell = ''AECOM, Dallas, Texas''" by (simp add: string_eval)
  with name loc p1 have "map_of exampleRow ''Company Name'' = Some ''AECOM''"
    and "map_of exampleRow ''Location'' = Some ''Dallas, Texas''"
    by simp_all
  with p1 p2 p3 show ?thesis by (intro conjI)
qed

subsection \<open>C7\<close>

text \<open>
  C7 (as stated, refuted). The header \<open>RANK 2025 2024\<close> contains RANK together with 2024,
  so it matches the rank-2024 pattern of the claim, and it is the first header of
  \<open>mixedHeaders\<close>; the scan takes such a header as the rank-2025 column only, and the
  rank-2024 column used is the later one, at index 1.
\<close>

theorem C7_rank2024_counterexample:
  "matchesRank2024 (mixedHeaders ! 0) \<and>
   rank2024Index (findIndices mixedHeaders) = 1 \<and>
   rank2024Index (findIndices mixedHeaders) \<noteq> 0"
  using mixedHeaders_first by (simp add: mixedHeaders_indices)

text \<open>
  C7 (amended). Rank-2024 header matching is insensitive to letter case and to white
  space, and accepts a normalized header that contains RANK together with 2024 or 2023
  and does not also contain 2025 (a header with RANK and 2025 is the rank-2025 column
  instead). Among the accepted headers only the first (lowest index) is used: its index
  is the one kept, and every extracted row reads its RANK 2024 value from that cell.
\<close>

theorem C7_rank2024_first_match_wins:
  "scanHeader (toLowerCase h) idx st = scanHeader h idx st \<and>
   scanHeader (toUpperCase h) idx st = scanHeader h idx st \<and>
   (filter (\<lambda>c. \<not> isWhiteSpace c) h = filter (\<lambda>c. \<not> isWhiteSpace c) h' \<longrightarrow>
      scanHeader h idx st = scanHeader h' idx st) \<and>
   (i < length hs \<and> matchesRank2024 (hs ! i) \<and> \<not> matchesRank2025 (hs ! i) \<and>
    (\<forall>j < i. \<not> (matchesRank2024 (hs ! j) \<and> \<not> matchesRank2025 (hs ! j))) \<longrightarrow>
      rank2024Index (findIndices hs) = int i \<and>
      (\<forall>cells row. processRow (findIndices hs) cells = Some row \<longrightarrow>
         map_of row ''RANK 2024'' = map_option trim (cellAt cells (int i))))"
proof (intro conjI impI)
  show "scanHeader (toLowerCase h) idx st = scanHeader h idx st"
    by (rule scanHeader_cong) (rule normalizeHeader_toLowerCase)
  show "scanHeader (toUpperCase h) idx st = scanHeader h idx st"
    by (rule scanHeader_cong) (rule normalizeHeader_toUpperCase)
  show "scanHeader h idx st = scanHeader h' idx st"
    if "filter (\<lambda>c. \<not> isWhiteSpace c) h = filter (\<lambda>c. \<not> isWhiteSpace c) h'"
    using that by (intro scanHeader_cong normalizeHeader_whitespace)
next
  assume a: "i < length hs \<and> matchesRank2024 (hs ! i) \<and> \<not> matchesRank2025 (hs ! i) \<and>
    (\<forall>j < i. \<not> (matchesRank2024 (hs ! j) \<and> \<not> matchesRank2025 (hs ! j)))"
  then have "i < length hs" and "\<not> matchesRank2025 (hs ! i) \<and> matchesRank2024 (hs ! i)"
    and "\<forall>j < i. \<not> (\<not> matchesRank2025 (hs ! j) \<and> matchesRank2024 (hs ! j))"
    by auto
  then show idx: "rank2024Index (findIndices hs) = int i" by (rule rank2024_first_match)
  have "map_of row ''RANK 2024'' = map_option trim (cellAt cells (int i))"
    if "processRow (findIndices hs) cells = Some row" for cells row
    using processRow_rank2024 [OF that] idx by simp
  then show "\<forall>cells row. processRow (findIndices hs) cells = Some row \<longrightarrow>
         map_of row ''RANK 2024'' = map_option trim (cellAt cells (int i))"
    by blast
qed

theorem C7_rank2024_first_match_wins_witness:
  "scanHeader ''R a n k 2024'' 3 \<lparr>rank2025Index = -1, rank2024Index = -1, firmIndex = -1\<rparr> =
     scanHeader ''Rank2024'' 3 \<lparr>rank2025Index = -1, rank2024Index = -1, firmIndex = -1\<rparr> \<and>
   matchesRank2024 (duplicateHeaders ! 1) \<and> matchesRank2024 (duplicateHeaders ! 3) \<and>
   rank2024Index (findIndices duplicateHeaders) = 1 \<and>
   processRow (findIndices duplicateHeaders) duplicateCells = Some duplicateRow \<and>
   map_of duplicateRow ''RANK 2024'' = Some ''3'' \<and>
   matchesRank2024 (nbsp2024Headers ! 0) \<and> matchesRank2024 (nbsp2024Headers ! 1) \<and>
   rank2024Index (findIndices nbsp2024Headers) = 0"
proof -
  let ?st = "\<lparr>rank2025Index = -1, rank2024Index = -1, firmIndex = -1\<rparr>"
  have ws: "filter (\<lambda>c. \<not> isWhiteSpace c) ''R a n k 2024'' = filter (\<lambda>c. \<not> isWhiteSpace c) ''Rank2024''"
    by (simp add: isWhiteSpace_def)
  have len: "(1::nat) < length duplicateHeaders" by (simp add: duplicateHeaders_def)
  have first: "\<forall>j < (1::nat). \<not> (matchesRank2024 (duplicateHeaders ! j) \<and> \<not> matchesRank2025 (duplicateHeaders ! j))"
    using duplicateHeaders_rank2024(1) by simp
  have row: "processRow (findIndices duplicateHeaders) duplicateCells = Some duplicateRow"
    by (simp add: duplicateHeaders_indices duplicateHeaders_row)
  have cell: "map_option trim (cellAt duplicateCells (int 1)) = Some ''3''"
    by (simp add: cellAt_def duplicateCells_def string_eval)
  note inst = C7_rank2024_first_match_wins [of "''R a n k 2024''" 3 "?st" "''Rank2024''" 1 duplicateHeaders]
  from inst ws have eq: "scanHeader ''R a n k 2024'' 3 ?st = scanHeader ''Rank2024'' 3 ?st"
    by blast
  from inst len first duplicateHeaders_rank2024(2) duplicateHeaders_rank2025(2)
  have concl: "rank2024Index (findIndices duplicateHeaders) = int 1 \<and>
      (\<forall>cells row. processRow (findIndices duplicateHeaders) cells = Some row \<longrightarrow>
         map_of row ''RANK 2024'' = map_option trim (cellAt cells (int 1)))"
    by blast
  from concl have idx: "rank2024Index (findIndices duplicateHeaders) = 1" by simp
  from concl row
  have "map_of duplicateRow ''RANK 2024'' = map_option trim (cellAt duplicateCells (int 1))"
    by blast
  with cell have val: "map_of duplicateRow ''RANK 2024'' = Some ''3''" by (simp only:)
  note inst' = C7_rank2024_first_match_wins [of "''Rank2024''" 0 "?st" "''Rank2024''" 0 nbsp2024Headers]
  have len': "(0::nat) < length nbsp2024Headers" by (simp add: nbsp2024Headers_def)
  have first': "\<forall>j < (0::nat). \<not> (matchesRank2024 (nbsp2024Headers ! j) \<and> \<not> matchesRank2025 (nbsp2024Headers ! j))"
    by simp
  from inst' len' first' nbsp2024Headers_match(1) nbsp2024Headers_match(2)
  have "rank2024Index (findIndices nbsp2024Headers) = int 0" by blast
  then have idx': "rank2024Index (findIndices nbsp2024Headers) = 0" by simp
  from eq duplicateHeaders_rank2024(2) duplicateHeaders_rank2024(3) idx row val
    nbsp2024Headers_match(1) nbsp2024Headers_match(3) idx'
  show ?thesis by (intro conjI)
qed

subsection \<open>C8\<close>

text \<open>
  C8. For every page on which getToplistLinks returns, the returned array has no two
  entries with the same href, and its entries stand in the order in which their href was
  first encountered in the collected anchors: it is the collected list with every entry
  removed whose href occurred before, so it keeps the order, loses no href, and each
  entry kept is the first collected entry with its href.
\<close>

theorem C8_links_deduplicated_first_seen:
  "getToplistLinks pg = Inr links \<longrightarrow>
     (\<exists>querySelectorAll. anchorsEval pg = Inr querySelectorAll \<and>
        links = firstOccurrences (collectLinks querySelectorAll) {} \<and>
        distinct (map href links) \<and>
        subseq links (collectLinks querySelectorAll) \<and>
        set (map href links) = set (map href (collectLinks querySelectorAll)) \<and>
        (\<forall>l \<in> set links.
           find (\<lambda>x. href x = href l) (collectLinks querySelectorAll) = Some l))"
proof
  assume "getToplistLinks pg = Inr links"
  then obtain q where q: "anchorsEval pg = Inr q"
    and links: "links = firstOccurrences (collectLinks q) {}"
    by (auto simp: getToplistLinks_def uniqueLoop_eq split: sum.splits)
  have d: "distinct (map href links)" unfolding links by (rule firstOccurrences_distinct)
  have s: "subseq links (collectLinks q)" unfolding links by (rule firstOccurrences_subseq)
  have h: "set (map href links) = set (map href (collectLinks q))"
    unfolding links firstOccurrences_hrefs by simp
  have f: "\<forall>l \<in> set links. find (\<lambda>x. href x = href l) (collectLinks q) = Some l"
    unfolding links by (auto dest: firstOccurrences_find)
  from q links d s h f
  show "\<exists>querySelectorAll. anchorsEval pg = Inr querySelectorAll \<and>
        links = firstOccurrences (collectLinks querySelectorAll) {} \<and>
        distinct (map href links) \<and>
        subseq links (collectLinks querySelectorAll) \<and>
        set (map href links) = set (map href (collectLinks querySelectorAll)) \<and>
        (\<forall>l \<in> set links.
           find (\<lambda>x. href x = href l) (collectLinks querySelectorAll) = Some l)"
    by blast
qed

theorem C8_links_deduplicated_first_seen_witness:
  "getToplistLinks indexPage = Inr [top500Link, top400Link] \<and>
   collectLinks exampleQuery = [top500Link, top400Link, top500AgainLink] \<and>
   href top500AgainLink = href top500Link \<and>
   distinct (map href [top500Link, top400Link]) \<and>
   subseq [top500Link, top400Link] [top500Link, top400Link, top500AgainLink]"
proof -
  from C8_links_deduplicated_first_seen [of indexPage "[top500Link, top400Link]"] indexPage_links
  obtain q where q: "anchorsEval indexPage = Inr q"
    and d: "distinct (map href [top500Link, top400Link])"
    and s: "subseq [top500Link, top400Link] (collectLinks q)"
    by blast
  from q have "q = exampleQuery" by (simp add: indexPage_def)
  with s have s': "subseq [top500Link, top400Link] [top500Link, top400Link, top500AgainLink]"
    by (simp only: exampleQuery_collect)
  have same: "href top500AgainLink = href top500Link" by (simp add: example_hrefs)
  from indexPage_links exampleQuery_collect same d s' show ?thesis by (intro conjI)
qed

subsection \<open>C9\<close>

text \<open>
  C9. Every extracted row has its keys among RANK 2025, RANK 2024, Company Name and
  Location, each at most once. A rank key is present exactly when its column was
  resolved for the table (the index is not -1) and the row has a cell at that index, its
  value then the trimmed cell text; otherwise the key is absent from the row, not bound
  to an empty string. Every row of a page's extraction is built in this way from a row
  of one of the page's tables.
\<close>

theorem C9_row_keys_canonical:
  "(processRow ix cells = Some row \<longrightarrow>
      set (map fst row) \<subseteq> set canonicalHeaders \<and> distinct (map fst row) \<and>
      (''RANK 2025'' \<in> set (map fst row) \<longleftrightarrow>
         rank2025Index ix \<noteq> -1 \<and> cellAt cells (rank2025Index ix) \<noteq> None) \<and>
      (''RANK 2024'' \<in> set (map fst row) \<longleftrightarrow>
         rank2024Index ix \<noteq> -1 \<and> cellAt cells (rank2024Index ix) \<noteq> None) \<and>
      map_of row ''RANK 2025'' =
        (if rank2025Index ix \<noteq> -1 then map_option trim (cellAt cells (rank2025Index ix)) else None) \<and>
      map_of row ''RANK 2024'' =
        (if rank2024Index ix \<noteq> -1 then map_option trim (cellAt cells (rank2024Index ix)) else None)) \<and>
   (extractTableData pg = Inr (Some e) \<longrightarrow>
      (\<forall>r \<in> set (ex_data e).
         set (map fst r) \<subseteq> set canonicalHeaders \<and>
         (\<exists>allTables t trCells. tablesEval pg = Inr allTables \<and> t \<in> set allTables \<and>
            trCells \<in> set (tbody_tr t) \<and>
            processRow (findIndices (map headerText (thead_th t))) trCells = Some r)))"
proof (intro conjI impI ballI)
  assume p: "processRow ix cells = Some row"
  note keys = processRow_keys [OF p]
  show "set (map fst row) \<subseteq> set canonicalHeaders"
    unfolding keys by (auto simp: canonicalHeaders_def)
  show "distinct (map fst row)" unfolding keys by simp
  show "''RANK 2025'' \<in> set (map fst row) \<longleftrightarrow>
         rank2025Index ix \<noteq> -1 \<and> cellAt cells (rank2025Index ix) \<noteq> None"
    unfolding keys by simp
  show "''RANK 2024'' \<in> set (map fst row) \<longleftrightarrow>
         rank2024Index ix \<noteq> -1 \<and> cellAt cells (rank2024Index ix) \<noteq> None"
    unfolding keys by simp
  show "map_of row ''RANK 2025'' =
        (if rank2025Index ix \<noteq> -1 then map_option trim (cellAt cells (rank2025Index ix)) else None)"
    using p by (rule processRow_rank2025)
  show "map_of row ''RANK 2024'' =
        (if rank2024Index ix \<noteq> -1 then map_option trim (cellAt cells (rank2024Index ix)) else None)"
    using p by (rule processRow_rank2024)
next
  fix r
  assume ex: "extractTableData pg = Inr (Some e)" and r: "r \<in> set (ex_data e)"
  from extractTableData_Some [OF ex] obtain allTables where ts: "tablesEval pg = Inr allTables"
    and data: "ex_data e = concat (map rowsOf (filter (\<lambda>t. table_id t \<noteq> ''paginationTable'') allTables))"
    by blast
  from r data obtain t where t: "t \<in> set allTables" and rt: "r \<in> set (rowsOf t)" by auto
  from rowsOf_origin [OF rt] obtain trCells where c: "trCells \<in> set (tbody_tr t)"
    and p: "processRow (findIndices (map headerText (thead_th t))) trCells = Some r"
    by blast
  show "set (map fst r) \<subseteq> set canonicalHeaders"
    unfolding processRow_keys [OF p] by (auto simp: canonicalHeaders_def)
  from ts t c p
  show "\<exists>allTables t trCells. tablesEval pg = Inr allTables \<and> t \<in> set allTables \<and>
            trCells \<in> set (tbody_tr t) \<and>
            processRow (findIndices (map headerText (thead_th t))) trCells = Some r"
    by blast
qed

theorem C9_row_keys_canonical_witness:
  "processRow \<lparr>rank2025Index = 0, rank2024Index = -1, firmIndex = 1\<rparr>
     [''1'', ''AECOM, Dallas, Texas''] = Some exampleRow \<and>
   set (map fst exampleRow) \<subseteq> set canonicalHeaders \<and>
   ''RANK 2025'' \<in> set (map fst exampleRow) \<and>
   ''RANK 2024'' \<notin> set (map fst exampleRow) \<and>
   map_of exampleRow ''RANK 2024'' = None \<and>
   extractTableData dataPage =
     Inr (Some \<lparr>ex_headers = canonicalHeaders, ex_data = [exampleRow], tablesFound = 1\<rparr>)"
proof -
  let ?ix = "\<lparr>rank2025Index = 0, rank2024Index = -1, firmIndex = 1\<rparr>"
  let ?cells = "[''1'', ''AECOM, Dallas, Texas'']"
  let ?e = "\<lparr>ex_headers = canonicalHeaders, ex_data = [exampleRow], tablesFound = 1\<rparr>"
  note inst = C9_row_keys_canonical [of ?ix ?cells exampleRow dataPage ?e]
  from inst rankTable_row
  have sub: "set (map fst exampleRow) \<subseteq> set canonicalHeaders"
    and k25: "''RANK 2025'' \<in> set (map fst exampleRow) \<longleftrightarrow>
         rank2025Index ?ix \<noteq> -1 \<and> cellAt ?cells (rank2025Index ?ix) \<noteq> None"
    and k24: "''RANK 2024'' \<in> set (map fst exampleRow) \<longleftrightarrow>
         rank2024Index ?ix \<noteq> -1 \<and> cellAt ?cells (rank2024Index ?ix) \<noteq> None"
    and v24: "map_of exampleRow ''RANK 2024'' =
        (if rank2024Index ?ix \<noteq> -1 then map_option trim (cellAt ?cells (rank2024Index ?ix)) else None)"
    by blast+
  from k25 have in25: "''RANK 2025'' \<in> set (map fst exampleRow)" by (simp add: cellAt_def)
  from k24 have out24: "''RANK 2024'' \<notin> set (map fst exampleRow)" by simp
  from v24 have none24: "map_of exampleRow ''RANK 2024'' = None" by simp
  from rankTable_row sub in25 out24 none24 dataPage_extract show ?thesis by (intro conjI)
qed

subsection \<open>C10\<close>

text \<open>
  C10. When two or more headers match the rank-2025 pattern (the normalized header
  contains both RANK and 2025), the column used for the RANK 2025 field is the last of
  them: the index of a matching header after which no header matches is the one kept, and
  every extracted row reads its RANK 2025 value from the cell at that index. The scan
  has no first-match guard for this column.
\<close>

theorem C10_rank2025_last_match_wins:
  "i < length hs \<and> matchesRank2025 (hs ! i) \<and>
   (\<forall>j. i < j \<and> j < length hs \<longrightarrow> \<not> matchesRank2025 (hs ! j)) \<longrightarrow>
     rank2025Index (findIndices hs) = int i \<and>
     (\<forall>cells row. processRow (findIndices hs) cells = Some row \<longrightarrow>
        map_of row ''RANK 2025'' = map_option trim (cellAt cells (int i)))"
proof (intro impI, elim conjE)
  assume i: "i < length hs" and m: "matchesRank2025 (hs ! i)"
    and last: "\<forall>j. i < j \<and> j < length hs \<longrightarrow> \<not> matchesRank2025 (hs ! j)"
  have idx: "rank2025Index (findIndices hs) = int i"
    using i m last by (rule rank2025_last_match)
  have "map_of row ''RANK 2025'' = map_option trim (cellAt cells (int i))"
    if "processRow (findIndices hs) cells = Some row" for cells row
    using processRow_rank2025 [OF that] idx by simp
  with idx show "rank2025Index (findIndices hs) = int i \<and>
     (\<forall>cells row. processRow (findIndices hs) cells = Some row \<longrightarrow>
        map_of row ''RANK 2025'' = map_option trim (cellAt cells (int i)))"
    by blast
qed

theorem C10_rank2025_last_match_wins_witness:
  "matchesRank2025 (duplicateHeaders ! 0) \<and> matchesRank2025 (duplicateHeaders ! 2) \<and>
   rank2025Index (findIndices duplicateHeaders) = 2 \<and>
   processRow (findIndices duplicateHeaders) duplicateCells = Some duplicateRow \<and>
   map_of duplicateRow ''RANK 2025'' = Some ''2'' \<and>
   matchesRank2025 (nbsp2025Headers ! 0) \<and> matchesRank2025 (nbsp2025Headers ! 1) \<and>
   rank2025Index (findIndices nbsp2025Headers) = 1"
proof -
  have len: "(2::nat) < length duplicateHeaders" by (simp add: duplicateHeaders_def)
  have last: "\<forall>j. 2 < j \<and> j < length duplicateHeaders \<longrightarrow> \<not> matchesRank2025 (duplicateHeaders ! j)"
  proof (intro allI impI)
    fix j :: nat assume "2 < j \<and> j < length duplicateHeaders"
    then have "j = 3 \<or> j = 4" by (auto simp: duplicateHeaders_def)
    then show "\<not> matchesRank2025 (duplicateHeaders ! j)"
      using duplicateHeaders_rank2025 by auto
  qed
  have row: "processRow (findIndices duplicateHeaders) duplicateCells = Some duplicateRow"
    by (simp add: duplicateHeaders_indices duplicateHeaders_row)
  have cell: "map_option trim (cellAt duplicateCells (int 2)) = Some ''2''"
    by (simp add: cellAt_def duplicateCells_def string_eval)
  from C10_rank2025_last_match_wins [of 2 duplicateHeaders] len last duplicateHeaders_rank2025(3)
  have concl: "rank2025Index (findIndices duplicateHeaders) = int 2 \<and>
     (\<forall>cells row. processRow (findIndices duplicateHeaders) cells = Some row \<longrightarrow>
        map_of row ''RANK 2025'' = map_option trim (cellAt cells (int 2)))"
    by blast
  from concl have idx: "rank2025Index (findIndices duplicateHeaders) = 2" by simp
  from concl row
  have "map_of duplicateRow ''RANK 2025'' = map_option trim (cellAt duplicateCells (int 2))"
    by blast
  with cell have val: "map_of duplicateRow ''RANK 2025'' = Some ''2''" by (simp only:)
  have len': "(1::nat) < length nbsp2025Headers" by (simp add: nbsp2025Headers_def)
  have last': "\<forall>j. 1 < j \<and> j < length nbsp2025Headers \<longrightarrow> \<not> matchesRank2025 (nbsp2025Headers ! j)"
  proof (intro allI impI)
    fix j :: nat assume "1 < j \<and> j < length nbsp2025Headers"
    then have "j = 2" by (auto simp: nbsp2025Headers_def)
    then show "\<not> matchesRank2025 (nbsp2025Headers ! j)"
      using nbsp2025Headers_match(3) by simp
  qed
  from C10_rank2025_last_match_wins [of 1 nbsp2025Headers] len' last' nbsp2025Headers_match(2)
  have "rank2025Index (findIndices nbsp2025Headers) = int 1" by blast
  then have idx': "rank2025Index (findIndices nbsp2025Headers) = 1" by simp
  from duplicateHeaders_rank2025(1) duplicateHeaders_rank2025(3) idx row val
    nbsp2025Headers_match(1) nbsp2025Headers_match(2) idx'
  show ?thesis by (intro conjI)
qed

end
